theory Spec2Isabelle
  imports Complex_Main "HOL-Library.Word"
begin

section \<open>JavaScript strings\<close>

text \<open>
  A JavaScript string is a sequence of UTF-16 code units: \<open>length\<close>, \<open>includes\<close>,
  \<open>split\<close>, \<open>substring\<close> and \<open>lastIndexOf\<close> all count code units. Only the string
  iterator (\<open>for (const char of str)\<close>) walks code points, joining a high surrogate and
  the low surrogate after it into one element.
\<close>

type_synonym jschar = "16 word"
type_synonym jsstring = "jschar list"

definition chr :: "char \<Rightarrow> jschar" where
  "chr c = of_nat (of_char c)"

definition lit :: "string \<Rightarrow> jsstring" where
  "lit s = map chr s"

definition newline :: jschar where
  "newline = 10"

fun startsWith :: "'a list \<Rightarrow> 'a list \<Rightarrow> bool" where
  "startsWith s [] = True"
| "startsWith [] (p # ps) = False"
| "startsWith (x # xs) (p # ps) = (x = p \<and> startsWith xs ps)"

fun includes_js :: "'a list \<Rightarrow> 'a list \<Rightarrow> bool" where
  "includes_js [] p = (p = [])"
| "includes_js (x # xs) p = (startsWith (x # xs) p \<or> includes_js xs p)"

fun split_js :: "'a \<Rightarrow> 'a list \<Rightarrow> 'a list list" where
  "split_js sep [] = [[]]"
| "split_js sep (c # cs) =
     (if c = sep then [] # split_js sep cs
      else (case split_js sep cs of
              l # ls \<Rightarrow> (c # l) # ls
            | [] \<Rightarrow> [[c]]))"

section \<open>Inline ignore comments (scanner/analyzer.js, parseInlineIgnoreComments)\<close>

definition DISABLE :: jsstring where
  "DISABLE = lit ''hardcoded-detector:disable''"

definition ENABLE :: jsstring where
  "ENABLE = lit ''hardcoded-detector:enable''"

definition DISABLE_NEXT_LINE :: jsstring where
  "DISABLE_NEXT_LINE = lit ''hardcoded-detector:disable-next-line''"

definition DISABLE_LINE :: jsstring where
  "DISABLE_LINE = lit ''hardcoded-detector:disable-line''"

text \<open>
  The \<open>for\<close> loop of \<open>parseInlineIgnoreComments\<close>: \<open>i\<close> is the loop index,
  \<open>blockDisabled\<close> the flag and \<open>ignoredLines\<close> the set built so far. The five tests
  are in the order of the source; each branch ends in \<open>continue\<close>.
\<close>

function parseLoop :: "jsstring list \<Rightarrow> nat \<Rightarrow> bool \<Rightarrow> nat set \<Rightarrow> nat set" where
  "parseLoop lines i blockDisabled ignoredLines =
     (if i < length lines then
        (let line = lines ! i; lineNumber = i + 1 in
         if includes_js line DISABLE then
           parseLoop lines (i + 1) True (insert lineNumber ignoredLines)
         else if includes_js line ENABLE then
           parseLoop lines (i + 1) False ignoredLines
         else if blockDisabled then
           parseLoop lines (i + 1) blockDisabled (insert lineNumber ignoredLines)
         else if includes_js line DISABLE_NEXT_LINE then
           parseLoop lines (i + 1) blockDisabled
             (if i + 1 < length lines then insert (lineNumber + 1) ignoredLines
              else ignoredLines)
         else if includes_js line DISABLE_LINE then
           parseLoop lines (i + 1) blockDisabled (insert lineNumber ignoredLines)
         else parseLoop lines (i + 1) blockDisabled ignoredLines)
      else ignoredLines)"
  by pat_completeness auto
termination
  by (relation "measure (\<lambda>(lines, i, b, s). length lines - i)") auto

definition parseInlineIgnoreComments :: "jsstring list \<Rightarrow> nat set" where
  "parseInlineIgnoreComments lines = parseLoop lines 0 False {}"


section \<open>Shannon entropy (utils/entropy.js)\<close>

definition isHighSurrogate :: "jschar \<Rightarrow> bool" where
  "isHighSurrogate u = (0xD800 \<le> u \<and> u \<le> 0xDBFF)"

definition isLowSurrogate :: "jschar \<Rightarrow> bool" where
  "isLowSurrogate u = (0xDC00 \<le> u \<and> u \<le> 0xDFFF)"

text \<open>
  The string iterator behind \<open>for (const char of str)\<close>: one element per code point, a
  surrogate pair being one element of two code units, a lone surrogate an element of its
  own.
\<close>

fun chars_of :: "jsstring \<Rightarrow> jsstring list" where
  "chars_of [] = []"
| "chars_of [u] = [[u]]"
| "chars_of (u # v # rest) =
     (if isHighSurrogate u \<and> isLowSurrogate v then [u, v] # chars_of rest
      else [u] # chars_of (v # rest))"

text \<open>
  \<open>frequencies[char] = (frequencies[char] || 0) + 1\<close> on an object that starts empty.
  The object is an association list in insertion order. (\<open>for ... in\<close> lists digit keys
  first; the sum below is over the reals, where the order of the terms does not matter.)
\<close>

fun bump :: "(jsstring \<times> nat) list \<Rightarrow> jsstring \<Rightarrow> (jsstring \<times> nat) list" where
  "bump [] ch = [(ch, 0 + 1)]"
| "bump ((k, n) # fs) ch = (if k = ch then (k, n + 1) # fs else (k, n) # bump fs ch)"

definition frequencies :: "jsstring \<Rightarrow> (jsstring \<times> nat) list" where
  "frequencies str = foldl bump [] (chars_of str)"

text \<open>
  \<open>calculateEntropy\<close>, with JavaScript's doubles read as real numbers and
  \<open>Math.log2\<close> as the logarithm to base 2. \<open>length\<close> is \<open>str.length\<close>, the number
  of code units. The rounding of doubles is not modelled: where the real value is exactly
  a threshold of the classifier, the double computed by the code can lie just below it.
\<close>

definition calculateEntropy :: "jsstring \<Rightarrow> real" where
  "calculateEntropy str =
     (if str = [] then 0
      else foldl (\<lambda>entropy (ch, n).
                    let probability = real n / real (length str)
                    in entropy - probability * log 2 probability)
             0 (frequencies str))"

datatype entropy_level = Low | Medium | High

record entropy_analysis =
  entropy :: real
  level :: entropy_level
  isSecret :: bool

definition analyzeEntropy :: "jsstring \<Rightarrow> entropy_analysis" where
  "analyzeEntropy str =
     (let entropy = calculateEntropy str;
          (level, isSecret) = (Low, False);
          (level, isSecret) =
            (if entropy \<ge> 5.0 then (High, True)
             else if entropy \<ge> 4.0 then (Medium, True)
             else if entropy \<ge> 3.5 then (Medium, False)
             else (level, isSecret))
      in \<lparr>entropy = entropy, level = level, isSecret = isSecret\<rparr>)"

section \<open>The static pattern validator (utils/safeRegex.js, validatePattern)\<close>

text \<open>
  The validator runs six fixed regular expressions over the source text of a pattern.
  They use character classes, concatenation, alternation, \<open>*\<close> and \<open>{n,}\<close> only, so
  \<open>RegExp.prototype.test\<close> on them is: some substring of the text belongs to the
  language of the expression. The expressions are written as terms of \<open>rx\<close> and
  tested with derivatives.
\<close>

datatype cls =
    Ch jschar
  | OneOf "jschar list"
  | NoneOf "jschar list"
  | Range jschar jschar
  | Dot
  | WordCh

fun cls_ok :: "cls \<Rightarrow> jschar \<Rightarrow> bool" where
  "cls_ok (Ch a) c = (c = a)"
| "cls_ok (OneOf as) c = (c \<in> set as)"
| "cls_ok (NoneOf as) c = (c \<notin> set as)"
| "cls_ok (Range lo hi) c = (lo \<le> c \<and> c \<le> hi)"
| "cls_ok Dot c = (c \<notin> set [0x0A, 0x0D, 0x2028, 0x2029])"
| "cls_ok WordCh c =
     ((chr CHR ''a'' \<le> c \<and> c \<le> chr CHR ''z'') \<or> (chr CHR ''A'' \<le> c \<and> c \<le> chr CHR ''Z'') \<or>
      (chr CHR ''0'' \<le> c \<and> c \<le> chr CHR ''9'') \<or> c = chr CHR ''_'')"

datatype rx = Zero | Eps | Atom cls | Seq rx rx | Alt rx rx | Star rx

fun atLeast_rx :: "nat \<Rightarrow> rx \<Rightarrow> rx" where
  "atLeast_rx 0 r = Star r"
| "atLeast_rx (Suc n) r = Seq r (atLeast_rx n r)"

fun nullable :: "rx \<Rightarrow> bool" where
  "nullable Zero = False"
| "nullable Eps = True"
| "nullable (Atom a) = False"
| "nullable (Seq r s) = (nullable r \<and> nullable s)"
| "nullable (Alt r s) = (nullable r \<or> nullable s)"
| "nullable (Star r) = True"

fun deriv :: "jschar \<Rightarrow> rx \<Rightarrow> rx" where
  "deriv c Zero = Zero"
| "deriv c Eps = Zero"
| "deriv c (Atom a) = (if cls_ok a c then Eps else Zero)"
| "deriv c (Seq r s) =
     (if nullable r then Alt (Seq (deriv c r) s) (deriv c s) else Seq (deriv c r) s)"
| "deriv c (Alt r s) = Alt (deriv c r) (deriv c s)"
| "deriv c (Star r) = Seq (deriv c r) (Star r)"

fun matchPrefix :: "rx \<Rightarrow> jsstring \<Rightarrow> bool" where
  "matchPrefix r [] = nullable r"
| "matchPrefix r (c # cs) = (nullable r \<or> matchPrefix (deriv c r) cs)"

fun test_rx :: "rx \<Rightarrow> jsstring \<Rightarrow> bool" where
  "test_rx r [] = nullable r"
| "test_rx r (c # cs) = (matchPrefix r (c # cs) \<or> test_rx r cs)"

definition NESTED_QUANTIFIERS :: rx where
  \<comment> \<open>\<^verbatim>\<open>/\([^)]*[+*]\)[+*]/\<close>\<close>
  "NESTED_QUANTIFIERS =
     Seq (Atom (Ch (chr CHR ''('')))
       (Seq (Star (Atom (NoneOf [chr CHR '')''])))
         (Seq (Atom (OneOf [chr CHR ''+'', chr CHR ''*'']))
           (Seq (Atom (Ch (chr CHR '')'')))
                (Atom (OneOf [chr CHR ''+'', chr CHR ''*''])))))"

definition ALTERNATIONS :: rx where
  \<comment> \<open>\<^verbatim>\<open>/\|.*\|.*\|/\<close>\<close>
  "ALTERNATIONS =
     Seq (Atom (Ch (chr CHR ''|'')))
       (Seq (Star (Atom Dot))
         (Seq (Atom (Ch (chr CHR ''|'')))
           (Seq (Star (Atom Dot)) (Atom (Ch (chr CHR ''|''))))))"

definition QUANTIFIER :: rx where
  \<comment> \<open>\<^verbatim>\<open>/[+*]/\<close>\<close>
  "QUANTIFIER = Atom (OneOf [chr CHR ''+'', chr CHR ''*''])"

definition MULTIPLE_WILDCARDS :: rx where
  \<comment> \<open>\<^verbatim>\<open>/(\.\*){2,}|(\.\+){2,}/\<close>\<close>
  "MULTIPLE_WILDCARDS =
     Alt (atLeast_rx 2 (Seq (Atom (Ch (chr CHR ''.''))) (Atom (Ch (chr CHR ''*'')))))
         (atLeast_rx 2 (Seq (Atom (Ch (chr CHR ''.''))) (Atom (Ch (chr CHR ''+'')))))"

definition GROUP_AT_END :: rx where
  \<comment> \<open>\<^verbatim>\<open>/\(\w\+\){2,}\$/\<close>: the \<open>{2,}\<close> binds to the closing parenthesis\<close>
  "GROUP_AT_END =
     Seq (Atom (Ch (chr CHR ''('')))
       (Seq (Atom WordCh)
         (Seq (Atom (Ch (chr CHR ''+'')))
           (Seq (atLeast_rx 2 (Atom (Ch (chr CHR '')''))))
                (Atom (Ch (chr CHR ''$''))))))"

definition BACKREFERENCE :: rx where
  \<comment> \<open>\<^verbatim>\<open>/\\[1-9]/\<close>\<close>
  "BACKREFERENCE =
     Seq (Atom (Ch (chr (CHR 0x5C)))) (Atom (Range (chr CHR ''1'') (chr CHR ''9'')))"

definition LARGE_CLASS :: rx where
  \<comment> \<open>\<^verbatim>\<open>/\[[^\]]{50,}\]/\<close>\<close>
  "LARGE_CLASS =
     Seq (Atom (Ch (chr CHR ''['')))
       (Seq (atLeast_rx 50 (Atom (NoneOf [chr CHR '']''])))
            (Atom (Ch (chr CHR '']''))))"

text \<open>
  The language of an expression: \<open>matches_rx r w\<close> says that \<open>r\<close> matches the whole of
  \<open>w\<close>. It is what the facts about \<open>test_rx\<close> are stated with.
\<close>

inductive matches_rx :: "rx \<Rightarrow> jsstring \<Rightarrow> bool" where
  m_Eps: "matches_rx Eps []"
| m_Atom: "cls_ok a c \<Longrightarrow> matches_rx (Atom a) [c]"
| m_Seq: "matches_rx r u \<Longrightarrow> matches_rx s v \<Longrightarrow> matches_rx (Seq r s) (u @ v)"
| m_AltL: "matches_rx r w \<Longrightarrow> matches_rx (Alt r s) w"
| m_AltR: "matches_rx s w \<Longrightarrow> matches_rx (Alt r s) w"
| m_StarNil: "matches_rx (Star r) []"
| m_StarStep: "matches_rx r u \<Longrightarrow> matches_rx (Star r) v \<Longrightarrow> matches_rx (Star r) (u @ v)"

text \<open>The quantifier characters that the nested-quantifier test looks for.\<close>

definition quantifier :: "jschar \<Rightarrow> bool" where
  "quantifier c = (c = chr CHR ''+'' \<or> c = chr CHR ''*'')"

record validation =
  safe :: bool
  warnings :: "jsstring list"

definition validatePattern :: "jsstring \<Rightarrow> validation" where
  "validatePattern pattern =
     (let (warnings, safe) = ([], True);
          (warnings, safe) =
            (if test_rx NESTED_QUANTIFIERS pattern
             then (warnings @ [lit ''Nested quantifiers detected - may cause ReDoS''], False)
             else (warnings, safe));
          warnings =
            (if test_rx ALTERNATIONS pattern \<and> test_rx QUANTIFIER pattern
             then warnings @ [lit ''Multiple alternations with quantifiers - may cause ReDoS'']
             else warnings);
          (warnings, safe) =
            (if test_rx MULTIPLE_WILDCARDS pattern
             then (warnings @ [lit ''Multiple .* or .+ in sequence - may cause ReDoS''], False)
             else (warnings, safe));
          warnings =
            (if test_rx GROUP_AT_END pattern
             then warnings @ [lit ''Repeated word boundaries at end - may cause ReDoS'']
             else warnings);
          warnings =
            (if test_rx BACKREFERENCE pattern
             then warnings @ [lit ''Backreferences detected - may impact performance'']
             else warnings);
          warnings =
            (if test_rx LARGE_CLASS pattern
             then warnings @ [lit ''Very large character class - may impact performance'']
             else warnings)
      in \<lparr>safe = safe, warnings = warnings\<rparr>)"

text \<open>
  The words of the specification for the second unsafe shape, to compare the code with: a
  sequence of two or more greedy wildcard groups, a greedy wildcard group being \<open>.*\<close>
  or \<open>.+\<close>. Two adjacent groups already are such a sequence.
\<close>

definition spec_wildcard_sequence :: "jsstring \<Rightarrow> bool" where
  "spec_wildcard_sequence p =
     (includes_js p (lit ''.*.*'') \<or> includes_js p (lit ''.*.+'') \<or>
      includes_js p (lit ''.+.*'') \<or> includes_js p (lit ''.+.+''))"

section \<open>Safe regex execution (utils/safeRegex.js, safeRegexExec)\<close>

text \<open>
  The regular-expression engine of the JavaScript runtime is a parameter. \<open>compile\<close> is
  \<open>new RegExp(pattern, flags)\<close> (\<open>None\<close> when it throws a SyntaxError); \<open>exec\<close> is one
  call of \<open>regex.exec(content)\<close> on a regex object whose \<open>lastIndex\<close> is the third
  argument: it returns the outcome and the new \<open>lastIndex\<close>. A match carries its index
  and its text \<open>match[0]\<close>.
\<close>

datatype exec_result = Match nat jsstring | NoMatch | EngineException jsstring

record 're engine =
  compile :: "jsstring \<Rightarrow> jsstring \<Rightarrow> 're option"
  exec :: "'re \<Rightarrow> jsstring \<Rightarrow> nat \<Rightarrow> exec_result \<times> nat"

record regex_match =
  m_index :: nat
  m_text :: jsstring

datatype regex_error =
    Timeout int
  | TooManyMatches
  | Rethrown jsstring
  | ExecutionError jsstring

definition DEFAULT_TIMEOUT :: int where
  "DEFAULT_TIMEOUT = 2000"

definition MAX_MATCHES :: nat where
  "MAX_MATCHES = 10000"

text \<open>
  The \<open>while\<close> loop. \<open>now k\<close> is the value of the \<open>k\<close>-th call of \<open>Date.now()\<close> made by
  this execution (\<open>now 0\<close> is \<open>startTime\<close>); the loop reads the clock once per match, so
  the reading taken when \<open>matchCount\<close> matches have been counted is \<open>now (matchCount + 1)\<close>.
  \<open>matchCount++ > MAX_MATCHES\<close> compares the value before the increment.
\<close>

function execLoop ::
  "'re engine \<Rightarrow> (nat \<Rightarrow> int) \<Rightarrow> 're \<Rightarrow> jsstring \<Rightarrow> int \<Rightarrow> nat \<Rightarrow> nat \<Rightarrow> regex_match list
   \<Rightarrow> regex_error + regex_match list" where
  "execLoop E now regex content timeout lastIndex matchCount matches =
     (case exec E regex content lastIndex of
        (EngineException m, li) \<Rightarrow>
          (if includes_js m (lit ''timeout'') \<or> includes_js m (lit ''Too many matches'')
           then Inl (Rethrown m) else Inl (ExecutionError m))
      | (NoMatch, li) \<Rightarrow> Inr matches
      | (Match i t, li) \<Rightarrow>
          if now (matchCount + 1) - now 0 > timeout then Inl (Timeout timeout)
          else if matchCount > MAX_MATCHES then Inl TooManyMatches
          else execLoop E now regex content timeout
                 (if i = li then li + 1 else li) (matchCount + 1)
                 (matches @ [\<lparr>m_index = i, m_text = t\<rparr>]))"
  by pat_completeness auto
termination
  by (relation "measure (\<lambda>(E, now, regex, content, timeout, lastIndex, matchCount, matches).
                  MAX_MATCHES + 1 - matchCount)") auto

declare execLoop.simps [simp del]

definition safeRegexExec ::
  "'re engine \<Rightarrow> (nat \<Rightarrow> int) \<Rightarrow> 're \<times> nat \<Rightarrow> jsstring \<Rightarrow> int
   \<Rightarrow> regex_error + regex_match list" where
  "safeRegexExec E now regex content timeout =
     execLoop E now (fst regex) content timeout (snd regex) 0 []"

section \<open>Patterns and their loading (scanner/analyzer.js)\<close>

record patternInfo =
  name :: jsstring
  pattern :: jsstring
  flags :: "jsstring option"
  severity :: "jsstring option"
  category :: "jsstring option"
  service :: "jsstring option"
  description :: jsstring
  confidence :: "jsstring option"
  useEntropyFilter :: bool

text \<open>
  A pattern object (pattern id to pattern) is an association list with distinct keys in
  insertion order, which is the order of \<open>Object.entries\<close> for keys that are not
  array indices.
\<close>

type_synonym patterns = "(jsstring \<times> patternInfo) list"

fun assign1 :: "('k \<times> 'v) list \<Rightarrow> 'k \<Rightarrow> 'v \<Rightarrow> ('k \<times> 'v) list" where
  "assign1 [] k v = [(k, v)]"
| "assign1 ((k', v') # m) k v = (if k' = k then (k', v) # m else (k', v') # assign1 m k v)"

definition Object_assign :: "('k \<times> 'v) list \<Rightarrow> ('k \<times> 'v) list \<Rightarrow> ('k \<times> 'v) list" where
  "Object_assign target source = foldl (\<lambda>m (k, v). assign1 m k v) target source"

definition delete_key :: "('k \<times> 'v) list \<Rightarrow> 'k \<Rightarrow> ('k \<times> 'v) list" where
  "delete_key m k = filter (\<lambda>(k', v). k' \<noteq> k) m"

record custom_document =
  custom_patterns :: "patterns option"
  disabled :: "jsstring list option"


definition mergePatterns :: "patterns \<Rightarrow> custom_document \<Rightarrow> patterns" where
  "mergePatterns defaultPatterns customPatterns =
     (let merged = defaultPatterns;
          merged = (case custom_patterns customPatterns of
                      Some ps \<Rightarrow> Object_assign merged ps
                    | None \<Rightarrow> merged);
          merged = (case disabled customPatterns of
                      Some ids \<Rightarrow> foldl delete_key merged ids
                    | None \<Rightarrow> merged)
      in merged)"

definition validateAndFilterPatterns :: "patterns \<Rightarrow> patterns" where
  "validateAndFilterPatterns ps =
     filter (\<lambda>(id, p). safe (validatePattern (pattern p))) ps"

text \<open>
  What \<open>loadPatterns\<close> reads. The built-in catalog \<open>detectors/services.json\<close> is data:
  \<open>None\<close> stands for a catalog that cannot be loaded or has no \<open>patterns\<close> member. The
  custom source is \<open>NoCustomFile\<close> when no path is given or the file does not exist,
  \<open>BrokenCustomFile\<close> when \<open>require\<close> throws, and the document otherwise.
\<close>

datatype custom_source = NoCustomFile | BrokenCustomFile | CustomFile custom_document

definition loadPatterns :: "patterns option \<Rightarrow> custom_source \<Rightarrow> patterns" where
  "loadPatterns builtin custom =
     (let patterns = (case builtin of Some ps \<Rightarrow> ps | None \<Rightarrow> []);
          patterns = (case custom of
                        CustomFile doc \<Rightarrow> mergePatterns patterns doc
                      | BrokenCustomFile \<Rightarrow> patterns
                      | NoCustomFile \<Rightarrow> patterns)
      in validateAndFilterPatterns patterns)"

record ContentAnalyzer =
  analyzer_patterns :: patterns

definition new_ContentAnalyzer :: "patterns option \<Rightarrow> custom_source \<Rightarrow> ContentAnalyzer" where
  "new_ContentAnalyzer builtin custom = \<lparr>analyzer_patterns = loadPatterns builtin custom\<rparr>"

section \<open>The content analyzer (scanner/analyzer.js, analyzeContent)\<close>

definition MAX_FILE_SIZE :: nat where
  "MAX_FILE_SIZE = 10 * 1024 * 1024"

definition MAX_LINES :: nat where
  "MAX_LINES = 100000"

record context_line =
  c_lineNumber :: nat
  c_content :: jsstring
  c_isTarget :: bool

record entropy_info =
  e_value :: real
  e_level :: entropy_level

record finding =
  f_id :: jsstring
  f_type :: jsstring
  f_category :: jsstring
  f_name :: jsstring
  f_severity :: jsstring
  f_description :: jsstring
  f_service :: jsstring
  f_match :: jsstring
  f_line :: nat
  f_column :: int
  f_lineContent :: jsstring
  f_context :: "context_line list"
  f_confidence :: jsstring
  f_entropy :: entropy_info

record analysis_options =
  minSeverity :: "jsstring option"
  disabledPatterns :: "jsstring list option"
  excludeCategories :: "jsstring list option"
  opt_useEntropyFilter :: bool

text \<open>\<open>x || d\<close> for a string that may be undefined: the empty string is falsy too.\<close>

definition or_default :: "jsstring option \<Rightarrow> jsstring \<Rightarrow> jsstring" where
  "or_default x d = (case x of None \<Rightarrow> d | Some s \<Rightarrow> if s = [] then d else s)"

text \<open>
  \<open>severityLevels[s] || 2\<close> on the object \<open>{low: 1, medium: 2, high: 3, critical: 4}\<close>.
  For a severity that names a member inherited from \<open>Object.prototype\<close>, such as
  \<open>constructor\<close> or \<open>toString\<close>, the lookup of the code yields that member, not 2,
  and the comparison of levels is not a comparison of numbers; such severities are
  outside this model, which gives them level 2.
\<close>

definition severityLevel :: "jsstring option \<Rightarrow> nat" where
  "severityLevel s =
     (if s = Some (lit ''low'') then 1
      else if s = Some (lit ''medium'') then 2
      else if s = Some (lit ''high'') then 3
      else if s = Some (lit ''critical'') then 4
      else 2)"

definition shouldSkipPattern :: "jsstring \<Rightarrow> patternInfo \<Rightarrow> analysis_options \<Rightarrow> bool" where
  "shouldSkipPattern patternId info options =
     (if (case disabledPatterns options of Some ids \<Rightarrow> patternId \<in> set ids | None \<Rightarrow> False)
      then True
      else if (case minSeverity options of
                 Some m \<Rightarrow> m \<noteq> [] \<and> severityLevel (severity info) < severityLevel (Some m)
               | None \<Rightarrow> False)
      then True
      else if (case excludeCategories options of
                 Some cs \<Rightarrow> (case category info of Some c \<Rightarrow> c \<in> set cs | None \<Rightarrow> False)
               | None \<Rightarrow> False)
      then True
      else False)"

datatype fs_error = ENOENT | EACCES | OtherError

text \<open>
  The environment of one analysis: the three file-system calls (each may fail on its
  own, so a file can vanish between them), the regex engine, and the clock: \<open>clock f p k\<close>
  is the \<open>k\<close>-th reading of \<open>Date.now()\<close> while pattern \<open>p\<close> runs over file \<open>f\<close>.
  \<open>fs_read\<close> is \<open>open\<close> followed by \<open>read\<close> at position 0: it yields the bytes of
  the file, of which the caller's 512-byte buffer receives the first 512.
\<close>

record 're env =
  fs_stat :: "jsstring \<Rightarrow> fs_error + nat"
  fs_read :: "jsstring \<Rightarrow> fs_error + 8 word list"
  fs_readFile :: "jsstring \<Rightarrow> fs_error + jsstring"
  regex_engine :: "'re engine"
  clock :: "jsstring \<Rightarrow> jsstring \<Rightarrow> nat \<Rightarrow> int"

definition isBinaryFile :: "'re env \<Rightarrow> jsstring \<Rightarrow> bool" where
  "isBinaryFile env filePath =
     (case fs_read env filePath of
        Inl e \<Rightarrow> False
      | Inr bytes \<Rightarrow> list_ex (\<lambda>b. b = 0) (take 512 bytes))"

definition findMatches ::
  "'re env \<Rightarrow> jsstring \<Rightarrow> jsstring \<Rightarrow> jsstring \<Rightarrow> patternInfo \<Rightarrow> regex_match list" where
  "findMatches env filePath patternId content info =
     (case compile (regex_engine env) (pattern info) (or_default (flags info) (lit ''gi'')) of
        None \<Rightarrow> []
      | Some regex \<Rightarrow>
          (case safeRegexExec (regex_engine env) (clock env filePath patternId) (regex, 0)
                  content 2000 of
             Inl e \<Rightarrow> []
           | Inr matches \<Rightarrow> matches))"

definition slice_js :: "'a list \<Rightarrow> int \<Rightarrow> int \<Rightarrow> 'a list" where
  \<comment> \<open>\<open>Array.prototype.slice\<close> for bounds that are not negative\<close>
  "slice_js xs a b = take (nat b - nat a) (drop (nat a) xs)"

definition getContext :: "jsstring list \<Rightarrow> int \<Rightarrow> int \<Rightarrow> context_line list" where
  "getContext lines centerLine contextLines =
     (let start = max 0 (centerLine - contextLines);
          end = min (int (length lines) - 1) (centerLine + contextLines);
          sl = slice_js lines start (end + 1)
      in map (\<lambda>(index, line).
                \<lparr>c_lineNumber = nat (start + int index + 1), c_content = line,
                 c_isTarget = (start + int index = centerLine)\<rparr>)
           (zip [0..<length sl] sl))"

definition lastIndexOf_js :: "'a list \<Rightarrow> 'a \<Rightarrow> int \<Rightarrow> int" where
  \<comment> \<open>\<open>String.prototype.lastIndexOf\<close> for a one-unit search string: a negative position is 0\<close>
  "lastIndexOf_js s c position =
     (let start = nat (max 0 position);
          ks = filter (\<lambda>k. s ! k = c) [0..<min (start + 1) (length s)]
      in if ks = [] then - 1 else int (last ks))"

definition isWhiteSpace :: "jschar \<Rightarrow> bool" where
  "isWhiteSpace c =
     (c \<in> set [0x09, 0x0A, 0x0B, 0x0C, 0x0D, 0x20, 0xA0, 0x1680, 0x2028, 0x2029, 0x202F,
               0x205F, 0x3000, 0xFEFF]
      \<or> (0x2000 \<le> c \<and> c \<le> 0x200A))"

definition trim_js :: "jsstring \<Rightarrow> jsstring" where
  "trim_js s = rev (dropWhile isWhiteSpace (rev (dropWhile isWhiteSpace s)))"

definition lineNumberOf :: "jsstring \<Rightarrow> nat \<Rightarrow> nat" where
  \<comment> \<open>\<open>content.substring(0, match.index).split('\n').length\<close>\<close>
  "lineNumberOf content i = length (split_js newline (take i content))"

definition makeFinding ::
  "jsstring list \<Rightarrow> jsstring \<Rightarrow> jsstring \<Rightarrow> patternInfo \<Rightarrow> regex_match \<Rightarrow> nat
   \<Rightarrow> entropy_analysis \<Rightarrow> finding" where
  "makeFinding lines content patternId info m lineNumber entropyAnalysis =
     (let lineContent = (if lineNumber - 1 < length lines then lines ! (lineNumber - 1) else [])
      in \<lparr>f_id = patternId,
          f_type = or_default (category info) (lit ''unknown''),
          f_category = or_default (category info) (lit ''unknown''),
          f_name = name info,
          f_severity = or_default (severity info) (lit ''medium''),
          f_description = description info,
          f_service = or_default (service info) (lit ''unknown''),
          f_match = m_text m,
          f_line = lineNumber,
          f_column = int (m_index m) - lastIndexOf_js content newline (int (m_index m) - 1),
          f_lineContent = trim_js lineContent,
          f_context = getContext lines (int lineNumber - 1) 2,
          f_confidence = or_default (confidence info) (lit ''medium''),
          f_entropy = \<lparr>e_value = entropy entropyAnalysis, e_level = level entropyAnalysis\<rparr>\<rparr>)"

text \<open>The inner loop over the matches of one pattern; a \<open>continue\<close> drops the match.\<close>

fun matchLoop ::
  "jsstring list \<Rightarrow> jsstring \<Rightarrow> nat set \<Rightarrow> analysis_options \<Rightarrow> jsstring \<Rightarrow> patternInfo
   \<Rightarrow> regex_match list \<Rightarrow> finding list" where
  "matchLoop lines content ignoredLines options patternId info [] = []"
| "matchLoop lines content ignoredLines options patternId info (m # ms) =
     (let lineNumber = lineNumberOf content (m_index m) in
      if lineNumber \<in> ignoredLines
      then matchLoop lines content ignoredLines options patternId info ms
      else
        (let entropyAnalysis = analyzeEntropy (m_text m) in
         if opt_useEntropyFilter options \<and> useEntropyFilter info \<and> \<not> isSecret entropyAnalysis
         then matchLoop lines content ignoredLines options patternId info ms
         else makeFinding lines content patternId info m lineNumber entropyAnalysis
              # matchLoop lines content ignoredLines options patternId info ms))"

text \<open>The outer loop over \<open>Object.entries(this.patterns)\<close>.\<close>

fun patternLoop ::
  "'re env \<Rightarrow> jsstring \<Rightarrow> jsstring list \<Rightarrow> jsstring \<Rightarrow> nat set \<Rightarrow> analysis_options
   \<Rightarrow> patterns \<Rightarrow> finding list" where
  "patternLoop env filePath lines content ignoredLines options [] = []"
| "patternLoop env filePath lines content ignoredLines options ((patternId, info) # ps) =
     (if shouldSkipPattern patternId info options
      then patternLoop env filePath lines content ignoredLines options ps
      else matchLoop lines content ignoredLines options patternId info
             (findMatches env filePath patternId content info)
           @ patternLoop env filePath lines content ignoredLines options ps)"

text \<open>
  The body of the \<open>try\<close> block: \<open>Inl\<close> is an exception thrown inside it, \<open>Inr\<close> a
  \<open>return\<close>.
\<close>

definition analyzeContent_try ::
  "ContentAnalyzer \<Rightarrow> 're env \<Rightarrow> jsstring \<Rightarrow> analysis_options \<Rightarrow> fs_error + finding list" where
  "analyzeContent_try analyzer env filePath options =
     (case fs_stat env filePath of
        Inl e \<Rightarrow> Inl e
      | Inr stats_size \<Rightarrow>
          if stats_size > MAX_FILE_SIZE then Inr []
          else if isBinaryFile env filePath then Inr []
          else
            (case fs_readFile env filePath of
               Inl e \<Rightarrow> Inl e
             | Inr content \<Rightarrow>
                 (let lines = split_js newline content in
                  if length lines > MAX_LINES then Inr []
                  else
                    (let ignoredLines = parseInlineIgnoreComments lines
                     in Inr (patternLoop env filePath lines content ignoredLines options
                               (analyzer_patterns analyzer))))))"

text \<open>
  How a call ends: with a value, with an exception that reaches the caller, or never.
\<close>

datatype 'a completion = Returns 'a | Throws fs_error | NeverReturns

definition analyzeContent ::
  "ContentAnalyzer \<Rightarrow> 're env \<Rightarrow> jsstring \<Rightarrow> analysis_options \<Rightarrow> finding list completion" where
  "analyzeContent analyzer env filePath options =
     (case analyzeContent_try analyzer env filePath options of
        Inr findings \<Rightarrow> Returns findings
      | Inl error \<Rightarrow>
          if error = ENOENT then Returns []
          else if error = EACCES then Returns []
          else Returns [])"

section \<open>The baseline manager (baseline/BaselineManager.js)\<close>

text \<open>
  \<open>JSON.stringify\<close> and the SHA-256 of Node's \<open>crypto\<close> module are parameters. The
  object handed to \<open>JSON.stringify\<close> has the four members \<open>file\<close>, \<open>line\<close>, \<open>id\<close>
  and \<open>match\<close>.
\<close>

record hash_input =
  h_file :: jsstring
  h_line :: nat
  h_id :: jsstring
  h_match :: jsstring

record crypto =
  JSON_stringify :: "hash_input \<Rightarrow> jsstring"
  sha256_hex :: "jsstring \<Rightarrow> jsstring"

definition generateFindingHash :: "crypto \<Rightarrow> finding \<Rightarrow> jsstring \<Rightarrow> jsstring" where
  "generateFindingHash C finding filePath =
     (let data = JSON_stringify C
                   \<lparr>h_file = filePath, h_line = f_line finding, h_id = f_id finding,
                    h_match = f_match finding\<rparr>
      in sha256_hex C data)"

text \<open>The object that \<open>generateFindingHash\<close> serialises.\<close>

definition hashedTuple :: "finding \<Rightarrow> jsstring \<Rightarrow> hash_input" where
  "hashedTuple finding filePath =
     \<lparr>h_file = filePath, h_line = f_line finding, h_id = f_id finding,
      h_match = f_match finding\<rparr>"

text \<open>
  The assumption under which a digest identifies what was hashed: serialised and hashed,
  the two tuples have the same digest only if they are the same tuple. Nothing about the
  parameters gives it; SHA-256 over JSON is relied upon for it.
\<close>

definition collision_free :: "crypto \<Rightarrow> hash_input \<Rightarrow> hash_input \<Rightarrow> bool" where
  "collision_free C x y =
     ((sha256_hex C (JSON_stringify C x) = sha256_hex C (JSON_stringify C y)) = (x = y))"

record baseline_entry =
  b_type :: jsstring
  b_name :: jsstring
  b_severity :: jsstring
  b_hash :: "jsstring option"
  b_reviewed :: bool
  b_reviewedBy :: "jsstring option"
  b_reviewDate :: "jsstring option"
  b_reason :: jsstring
  b_line :: nat
  b_match :: jsstring

text \<open>
  A baseline document. \<open>b_files\<close> is \<open>None\<close> when a document read from disk has no
  \<open>files\<close> member, and an entry's \<open>b_hash\<close> is \<open>None\<close> when it has no \<open>hash\<close>.
  The time stamp \<open>generatedAt\<close> is left out.
\<close>

record baseline =
  b_version :: jsstring
  b_totalFindings :: nat
  b_files :: "(jsstring \<times> baseline_entry) list option"

text \<open>\<open>String(n)\<close> for a natural number: its decimal digits.\<close>

function show_nat :: "nat \<Rightarrow> jsstring" where
  "show_nat n = (if n < 10 then [of_nat (48 + n)]
                 else show_nat (n div 10) @ [of_nat (48 + n mod 10)])"
  by pat_completeness auto
termination
  by (relation "measure (\<lambda>n. n)") auto

definition baselineKey :: "jsstring \<Rightarrow> nat \<Rightarrow> jsstring" where
  \<comment> \<open>the template string \<^verbatim>\<open>`${filePath}:${finding.line}`\<close>\<close>
  "baselineKey filePath n = filePath @ lit '':'' @ show_nat n"

record file_result =
  fr_file :: jsstring
  fr_findings :: "finding list"

definition generateBaseline ::
  "crypto \<Rightarrow> file_result list \<Rightarrow> jsstring option \<Rightarrow> baseline" where
  "generateBaseline C scanFindings autoReason =
     foldl (\<lambda>bl (filePath, finding).
              (let hash = generateFindingHash C finding filePath;
                   key = baselineKey filePath (f_line finding);
                   entry = \<lparr>b_type = f_id finding, b_name = f_name finding,
                            b_severity = f_severity finding, b_hash = Some hash,
                            b_reviewed = False, b_reviewedBy = None, b_reviewDate = None,
                            b_reason = or_default autoReason (lit ''Baselined during initial scan''),
                            b_line = f_line finding, b_match = take 50 (f_match finding)\<rparr>
               in bl\<lparr>b_files := Some (assign1 (case b_files bl of Some fs \<Rightarrow> fs | None \<Rightarrow> []) key entry),
                     b_totalFindings := b_totalFindings bl + 1\<rparr>))
       \<lparr>b_version = lit ''1.0.0'', b_totalFindings = 0, b_files = Some []\<rparr>
       (concat (map (\<lambda>fileResult. map (\<lambda>finding. (fr_file fileResult, finding)) (fr_findings fileResult))
                  scanFindings))"

text \<open>
  \<open>loadBaseline\<close>: the document stored at the baseline path when there is one that
  can be read, a fresh document with no entries otherwise.
\<close>

definition loadBaseline :: "baseline option \<Rightarrow> baseline" where
  "loadBaseline stored =
     (case stored of
        Some b \<Rightarrow> b
      | None \<Rightarrow> \<lparr>b_version = lit ''1.0.0'', b_totalFindings = 0, b_files = Some []\<rparr>)"

text \<open>The manager's field \<open>this.baseline\<close> is \<open>None\<close> until a baseline is loaded.\<close>

definition isBaselined :: "crypto \<Rightarrow> baseline option \<Rightarrow> finding \<Rightarrow> jsstring \<Rightarrow> bool" where
  "isBaselined C this_baseline finding filePath =
     (case this_baseline of
        None \<Rightarrow> False
      | Some bl \<Rightarrow>
          (case b_files bl of
             None \<Rightarrow> False
           | Some files \<Rightarrow>
               (let key = baselineKey filePath (f_line finding) in
                case map_of files key of
                  None \<Rightarrow> False
                | Some baselineEntry \<Rightarrow>
                    (let currentHash = generateFindingHash C finding filePath
                     in b_hash baselineEntry = Some currentHash))))"

fun filterLoop :: "crypto \<Rightarrow> baseline option \<Rightarrow> file_result list \<Rightarrow> file_result list" where
  "filterLoop C this_baseline [] = []"
| "filterLoop C this_baseline (fileResult # rest) =
     (let filteredFileFindings =
            filter (\<lambda>finding. \<not> isBaselined C this_baseline finding (fr_file fileResult))
              (fr_findings fileResult)
      in if length filteredFileFindings > 0
         then \<lparr>fr_file = fr_file fileResult, fr_findings = filteredFileFindings\<rparr>
              # filterLoop C this_baseline rest
         else filterLoop C this_baseline rest)"

definition filterFindings :: "crypto \<Rightarrow> baseline option \<Rightarrow> file_result list \<Rightarrow> file_result list" where
  "filterFindings C this_baseline fileFindings =
     (case this_baseline of
        None \<Rightarrow> fileFindings
      | Some bl \<Rightarrow> filterLoop C this_baseline fileFindings)"

section \<open>The scan orchestrator (index.js)\<close>

text \<open>
  The detector after its constructor has run: the analyzer of the main thread, built with
  the custom patterns source of the options, and the options the scans read.
  \<open>d_useBaseline\<close> says whether a baseline manager was created.
\<close>

record detector =
  d_analyzer :: ContentAnalyzer
  d_severity :: "jsstring option"
  d_disabledPatterns :: "jsstring list option"
  d_excludeCategories :: "jsstring list option"
  d_useEntropyFilter :: bool
  d_useWorkers :: bool
  d_workerCount :: "int option"
  d_useBaseline :: bool

text \<open>
  The options object given to the constructor; \<open>None\<close> is an absent member. A member that
  is present wins over the default, because the constructor spreads \<open>options\<close> last.
\<close>

record user_options =
  u_customPatterns :: custom_source
  u_severity :: "jsstring option"
  u_disabledPatterns :: "jsstring list option"
  u_excludeCategories :: "jsstring list option"
  u_useEntropyFilter :: "bool option"
  u_useWorkers :: "bool option"
  u_workerCount :: "int option"
  u_useBaseline :: "bool option"

definition new_HardcodedApiDetector :: "patterns option \<Rightarrow> user_options \<Rightarrow> detector" where
  "new_HardcodedApiDetector builtin options =
     \<lparr>d_analyzer = new_ContentAnalyzer builtin (u_customPatterns options),
      d_severity = (case u_severity options of None \<Rightarrow> Some (lit ''medium'') | Some s \<Rightarrow> Some s),
      d_disabledPatterns = (case u_disabledPatterns options of None \<Rightarrow> Some [] | Some ids \<Rightarrow> Some ids),
      d_excludeCategories = (case u_excludeCategories options of None \<Rightarrow> Some [] | Some cs \<Rightarrow> Some cs),
      d_useEntropyFilter = (case u_useEntropyFilter options of None \<Rightarrow> False | Some b \<Rightarrow> b),
      d_useWorkers = (case u_useWorkers options of None \<Rightarrow> True | Some b \<Rightarrow> b),
      d_workerCount = u_workerCount options,
      d_useBaseline = (case u_useBaseline options of None \<Rightarrow> False | Some b \<Rightarrow> b)\<rparr>"

definition taskOptions :: "detector \<Rightarrow> analysis_options" where
  "taskOptions D =
     \<lparr>minSeverity = d_severity D, disabledPatterns = d_disabledPatterns D,
      excludeCategories = d_excludeCategories D, opt_useEntropyFilter = d_useEntropyFilter D\<rparr>"

record scan_result =
  totalFiles :: nat
  filesWithIssues :: nat
  summary :: "(jsstring \<times> nat) list"
  result_findings :: "file_result list"

text \<open>
  \<open>formatResults\<close>; \<open>summary[finding.severity] = (summary[finding.severity] || 0) + 1\<close>
  is \<open>bump\<close>. The time stamp \<open>scanTime\<close> is left out.
\<close>

definition formatResults :: "nat \<Rightarrow> file_result list \<Rightarrow> scan_result" where
  "formatResults n fileFindings =
     (let summary0 = [(lit ''critical'', 0), (lit ''high'', 0), (lit ''medium'', 0), (lit ''low'', 0)];
          summary1 = foldl (\<lambda>s fileResult.
                              foldl (\<lambda>s finding. bump s (f_severity finding)) s (fr_findings fileResult))
                       summary0 fileFindings
      in \<lparr>totalFiles = n, filesWithIssues = length fileFindings, summary = summary1,
          result_findings = fileFindings\<rparr>)"

text \<open>
  The loop of \<open>scanSingleThreaded\<close>: an exception of \<open>analyzeContent\<close> would leave the
  loop and the scan.
\<close>

fun sequentialLoop ::
  "detector \<Rightarrow> 're env \<Rightarrow> jsstring list \<Rightarrow> file_result list completion" where
  "sequentialLoop D env [] = Returns []"
| "sequentialLoop D env (f # files) =
     (case analyzeContent (d_analyzer D) env f (taskOptions D) of
        Returns fs \<Rightarrow>
          (case sequentialLoop D env files of
             Returns results \<Rightarrow>
               Returns (if length fs > 0 then \<lparr>fr_file = f, fr_findings = fs\<rparr> # results else results)
           | Throws e \<Rightarrow> Throws e
           | NeverReturns \<Rightarrow> NeverReturns)
      | Throws e \<Rightarrow> Throws e
      | NeverReturns \<Rightarrow> NeverReturns)"

definition applyBaseline ::
  "crypto \<Rightarrow> detector \<Rightarrow> baseline option \<Rightarrow> file_result list \<Rightarrow> file_result list" where
  "applyBaseline C D stored results =
     (if d_useBaseline D then filterFindings C (Some (loadBaseline stored)) results
      else results)"

definition scanSingleThreaded ::
  "crypto \<Rightarrow> detector \<Rightarrow> 're env \<Rightarrow> baseline option \<Rightarrow> jsstring list
   \<Rightarrow> scan_result completion" where
  "scanSingleThreaded C D env stored files =
     (case sequentialLoop D env files of
        Returns results \<Rightarrow> Returns (formatResults (length files) (applyBaseline C D stored results))
      | Throws e \<Rightarrow> Throws e
      | NeverReturns \<Rightarrow> NeverReturns)"

text \<open>
  The worker thread (scanner/analyzerWorker.js). Its analyzer is built once, by
  \<open>new ContentAnalyzer()\<close> with no argument, and it answers each task with a message.
\<close>

record worker_message =
  r_filePath :: jsstring
  r_findings :: "finding list"
  r_error :: "fs_error option"

definition worker_analyzer :: "patterns option \<Rightarrow> ContentAnalyzer" where
  "worker_analyzer builtin = new_ContentAnalyzer builtin NoCustomFile"

definition worker_onMessage ::
  "patterns option \<Rightarrow> 're env \<Rightarrow> jsstring \<Rightarrow> analysis_options \<Rightarrow> worker_message" where
  "worker_onMessage builtin env filePath options =
     (case analyzeContent (worker_analyzer builtin) env filePath options of
        Returns fs \<Rightarrow> \<lparr>r_filePath = filePath, r_findings = fs, r_error = None\<rparr>
      | Throws e \<Rightarrow> \<lparr>r_filePath = filePath, r_findings = [], r_error = Some e\<rparr>
      | NeverReturns \<Rightarrow> \<lparr>r_filePath = filePath, r_findings = [], r_error = None\<rparr>)"

text \<open>
  \<open>scanParallel\<close>. The pool has \<open>workerCount\<close> workers, or one per CPU when the option
  is absent. \<open>Promise.all\<close> yields the workers' messages in the order of the tasks, whatever
  the order in which they arrive. A pool without workers never takes a task from its
  queue, so with at least one file the promise of \<open>scanParallel\<close> is never settled.
  (A worker thread that crashes is not modelled.)
\<close>

definition scanParallel ::
  "crypto \<Rightarrow> patterns option \<Rightarrow> int \<Rightarrow> detector \<Rightarrow> 're env \<Rightarrow> baseline option
   \<Rightarrow> jsstring list \<Rightarrow> scan_result completion" where
  "scanParallel C builtin cpus D env stored files =
     (let poolSize = (case d_workerCount D of None \<Rightarrow> cpus | Some n \<Rightarrow> n) in
      if poolSize \<le> 0 \<and> files \<noteq> [] then NeverReturns
      else
        (let results = map (\<lambda>f. worker_onMessage builtin env f (taskOptions D)) files;
             fileFindings =
               map (\<lambda>r. \<lparr>fr_file = r_filePath r, fr_findings = r_findings r\<rparr>)
                 (filter (\<lambda>r. r_error r = None \<and> length (r_findings r) > 0) results)
         in Returns (formatResults (length files) (applyBaseline C D stored fileFindings))))"

definition scan ::
  "crypto \<Rightarrow> patterns option \<Rightarrow> int \<Rightarrow> detector \<Rightarrow> 're env \<Rightarrow> baseline option
   \<Rightarrow> jsstring list \<Rightarrow> scan_result completion" where
  "scan C builtin cpus D env stored files =
     (let shouldUseWorkers = (d_useWorkers D \<and> length files \<ge> 10) in
      if shouldUseWorkers then scanParallel C builtin cpus D env stored files
      else scanSingleThreaded C D env stored files)"

section \<open>Two engines for concrete runs\<close>

text \<open>
  Two instances of the engine, each the behaviour of a global JavaScript regex of a
  simple kind. \<open>literal_engine\<close> is a pattern without metacharacters and without
  letters (so that case does not matter): it matches its own text, leftmost first.
  \<open>dot_engine\<close> is \<^verbatim>\<open>/./g\<close>: every code unit that is not a line terminator.
  A failed \<open>exec\<close> resets \<open>lastIndex\<close> to 0.
\<close>

definition literal_engine :: "jsstring engine" where
  "literal_engine =
     \<lparr>compile = (\<lambda>p f. Some p),
      exec = (\<lambda>p s lastIndex.
                case find (\<lambda>i. startsWith (drop i s) p) [lastIndex..<length s + 1] of
                  Some i \<Rightarrow> (Match i p, i + length p)
                | None \<Rightarrow> (NoMatch, 0))\<rparr>"

definition dot_engine :: "unit engine" where
  "dot_engine =
     \<lparr>compile = (\<lambda>p f. Some ()),
      exec = (\<lambda>u s lastIndex.
                case find (\<lambda>i. cls_ok Dot (s ! i)) [lastIndex..<length s] of
                  Some i \<Rightarrow> (Match i [s ! i], i + 1)
                | None \<Rightarrow> (NoMatch, 0))\<rparr>"

section \<open>Concrete inputs\<close>

definition example_pattern :: patternInfo where
  "example_pattern =
     \<lparr>name = lit ''Sevens'', pattern = lit ''77'', flags = None,
      severity = Some (lit ''high''), category = None, service = None,
      description = lit ''two sevens'', confidence = None, useEntropyFilter = False\<rparr>"

text \<open>
  A file system that holds one and the same readable text file at every path, the
  literal engine, and a clock that stands still.
\<close>

definition example_env :: "jsstring \<Rightarrow> jsstring env" where
  "example_env source =
     \<lparr>fs_stat = (\<lambda>p. Inr (length source)),
      fs_read = (\<lambda>p. Inr (map ucast source)),
      fs_readFile = (\<lambda>p. Inr source),
      regex_engine = literal_engine,
      clock = (\<lambda>f p k. 0)\<rparr>"

definition no_options :: analysis_options where
  "no_options = \<lparr>minSeverity = None, disabledPatterns = None, excludeCategories = None,
                  opt_useEntropyFilter = False\<rparr>"

text \<open>
  A file of three lines: a comment with the next-line sentinel, and the same credential
  on the second and on the third line.
\<close>

definition suppressed_lines :: "jsstring list" where
  "suppressed_lines = [lit ''#hardcoded-detector:disable-next-line'', lit ''77'', lit ''77'']"

definition suppressed_source :: jsstring where
  "suppressed_source =
     lit ''#hardcoded-detector:disable-next-line'' @ [newline] @ lit ''77'' @ [newline]
     @ lit ''77''"

text \<open>
  Stand-ins for \<open>JSON.stringify\<close> and SHA-256 in concrete runs: the four members joined
  by colons, and the identity as digest.
\<close>

definition example_crypto :: crypto where
  "example_crypto =
     \<lparr>JSON_stringify = (\<lambda>h. h_file h @ lit '':'' @ show_nat (h_line h) @ lit '':'' @ h_id h
                              @ lit '':'' @ h_match h),
      sha256_hex = (\<lambda>s. s)\<rparr>"

definition example_finding :: "jsstring \<Rightarrow> nat \<Rightarrow> finding" where
  "example_finding m n =
     \<lparr>f_id = lit ''sevens'', f_type = lit ''unknown'', f_category = lit ''unknown'',
      f_name = lit ''Sevens'', f_severity = lit ''high'', f_description = lit ''two sevens'',
      f_service = lit ''unknown'', f_match = m, f_line = n, f_column = 1, f_lineContent = m,
      f_context = [], f_confidence = lit ''medium'',
      f_entropy = \<lparr>e_value = 0, e_level = Low\<rparr>\<rparr>"

text \<open>
  A first scan, from which a baseline is generated, and a later scan of the same files in
  which the matched text on line 5 of \<open>b.js\<close> has changed.
\<close>

definition baselined_scan :: "file_result list" where
  "baselined_scan =
     [\<lparr>fr_file = lit ''a.js'', fr_findings = [example_finding (lit ''77'') 3]\<rparr>,
      \<lparr>fr_file = lit ''b.js'', fr_findings = [example_finding (lit ''77'') 5]\<rparr>]"

definition later_scan :: "file_result list" where
  "later_scan =
     [\<lparr>fr_file = lit ''a.js'', fr_findings = [example_finding (lit ''77'') 3]\<rparr>,
      \<lparr>fr_file = lit ''b.js'', fr_findings = [example_finding (lit ''78'') 5]\<rparr>]"

text \<open>
  A built-in catalog, a custom patterns document that overrides one of its entries, adds
  two and disables one, and the detector built from them with default options.
\<close>

definition aws_pattern :: patternInfo where
  "aws_pattern =
     \<lparr>name = lit ''AWS Access Key'', pattern = lit ''AKIA[0-9A-Z]{16}'', flags = None,
      severity = Some (lit ''critical''), category = Some (lit ''cloud''),
      service = Some (lit ''aws''), description = lit ''AWS access key id'',
      confidence = Some (lit ''high''), useEntropyFilter = False\<rparr>"

definition nested_pattern :: patternInfo where
  "nested_pattern = aws_pattern\<lparr>name := lit ''Nested'', pattern := lit ''(a+)+b''\<rparr>"

definition custom_aws_pattern :: patternInfo where
  "custom_aws_pattern = aws_pattern\<lparr>pattern := lit ''AKIA[0-9A-Z]{12}''\<rparr>"

definition wildcard_pattern :: patternInfo where
  "wildcard_pattern = aws_pattern\<lparr>name := lit ''Wild'', pattern := lit ''key.*.*end''\<rparr>"

definition legacy_pattern :: patternInfo where
  "legacy_pattern = example_pattern\<lparr>name := lit ''Nines'', pattern := lit ''99''\<rparr>"

definition example_builtin :: patterns where
  "example_builtin =
     [(lit ''aws_access_key'', aws_pattern), (lit ''nested'', nested_pattern),
      (lit ''legacy'', legacy_pattern)]"

definition example_custom :: custom_document where
  "example_custom =
     \<lparr>custom_patterns =
        Some [(lit ''aws_access_key'', custom_aws_pattern), (lit ''sevens'', example_pattern),
              (lit ''wild'', wildcard_pattern)],
      disabled = Some [lit ''legacy'']\<rparr>"

definition example_user_options :: user_options where
  "example_user_options =
     \<lparr>u_customPatterns = CustomFile example_custom, u_severity = None,
      u_disabledPatterns = None, u_excludeCategories = None, u_useEntropyFilter = None,
      u_useWorkers = None, u_workerCount = None, u_useBaseline = None\<rparr>"

definition example_detector :: detector where
  "example_detector = new_HardcodedApiDetector (Some example_builtin) example_user_options"

definition sevens_finding :: finding where
  "sevens_finding =
     makeFinding [lit ''77''] (lit ''77'') (lit ''sevens'') example_pattern
       \<lparr>m_index = 0, m_text = lit ''77''\<rparr> 1 (analyzeEntropy (lit ''77''))"

text \<open>File systems for the guards of the analysis.\<close>

definition example_analyzer :: ContentAnalyzer where
  "example_analyzer = \<lparr>analyzer_patterns = [(lit ''sevens'', example_pattern)]\<rparr>"

definition missing_env :: "jsstring env" where
  "missing_env =
     (example_env (lit ''77''))
       \<lparr>fs_stat := (\<lambda>p. Inl ENOENT), fs_read := (\<lambda>p. Inl ENOENT),
        fs_readFile := (\<lambda>p. Inl ENOENT)\<rparr>"

definition denied_env :: "jsstring env" where
  "denied_env =
     (example_env (lit ''77''))
       \<lparr>fs_read := (\<lambda>p. Inl EACCES), fs_readFile := (\<lambda>p. Inl EACCES)\<rparr>"

definition huge_env :: "jsstring env" where
  "huge_env = (example_env (lit ''77''))\<lparr>fs_stat := (\<lambda>p. Inr (10 * 1024 * 1024 + 1))\<rparr>"

definition long_env :: "jsstring env" where
  "long_env = example_env (replicate 100000 newline)"

definition binary_env :: "jsstring env" where
  "binary_env = (example_env (lit ''77''))\<lparr>fs_read := (\<lambda>p. Inr [0x37, 0x00, 0x37])\<rparr>"

section \<open>Facts about strings\<close>

lemma startsWith_append: "startsWith (p @ s) p"
  by (induction p) auto

lemma startsWith_iff: "startsWith s p \<longleftrightarrow> (\<exists>t. s = p @ t)"
proof (induction s p rule: startsWith.induct)
  case (1 s)
  then show ?case by simp
next
  case (2 p ps)
  then show ?case by simp
next
  case (3 x xs p ps)
  then show ?case by auto
qed

lemma includes_js_iff: "includes_js s p \<longleftrightarrow> (\<exists>u v. s = u @ p @ v)"
proof (induction s)
  case Nil
  then show ?case by auto
next
  case (Cons x xs)
  show ?case
  proof
    assume "includes_js (x # xs) p"
    then consider "startsWith (x # xs) p" | "includes_js xs p" by auto
    then show "\<exists>u v. x # xs = u @ p @ v"
    proof cases
      case 1
      then obtain t where "x # xs = p @ t" by (auto simp: startsWith_iff)
      then have "x # xs = [] @ p @ t" by simp
      then show ?thesis by blast
    next
      case 2
      then obtain u v where "xs = u @ p @ v" using Cons.IH by auto
      then have "x # xs = (x # u) @ p @ v" by simp
      then show ?thesis by blast
    qed
  next
    assume "\<exists>u v. x # xs = u @ p @ v"
    then obtain u v where uv: "x # xs = u @ p @ v" by blast
    show "includes_js (x # xs) p"
    proof (cases u)
      case Nil
      with uv have "startsWith (x # xs) p" by (auto simp: startsWith_iff)
      then show ?thesis by simp
    next
      case (Cons y ys)
      with uv have "xs = ys @ p @ v" by simp
      then have "includes_js xs p" using Cons.IH by blast
      then show ?thesis by simp
    qed
  qed
qed

lemma includes_js_trans:
  "includes_js s p \<Longrightarrow> includes_js p q \<Longrightarrow> includes_js s q"
proof -
  assume "includes_js s p" and "includes_js p q"
  then obtain u v u' v' where "s = u @ p @ v" and "p = u' @ q @ v'"
    by (auto simp: includes_js_iff)
  then have "s = (u @ u') @ q @ (v' @ v)" by simp
  then show ?thesis unfolding includes_js_iff by blast
qed

lemma DISABLE_in_DISABLE_NEXT_LINE: "includes_js DISABLE_NEXT_LINE DISABLE"
  by (simp add: DISABLE_NEXT_LINE_def DISABLE_def lit_def)

lemma DISABLE_in_DISABLE_LINE: "includes_js DISABLE_LINE DISABLE"
  by (simp add: DISABLE_LINE_def DISABLE_def lit_def)

text \<open>
  Every line that carries the next-line or the same-line sentinel also carries the block
  sentinel, which is a prefix of both and is tested first.
\<close>

lemma next_line_is_block: "includes_js line DISABLE_NEXT_LINE \<Longrightarrow> includes_js line DISABLE"
  using includes_js_trans DISABLE_in_DISABLE_NEXT_LINE by blast

lemma same_line_is_block: "includes_js line DISABLE_LINE \<Longrightarrow> includes_js line DISABLE"
  using includes_js_trans DISABLE_in_DISABLE_LINE by blast


section \<open>Inline suppression\<close>

text \<open>
  What the loop does with a sentinel line in general: numbers already in the set stay, and
  a line that carries the block sentinel is itself put into the set. A line with the
  next-line sentinel is such a line.
\<close>

lemma parseLoop_mem: "x \<in> ig \<Longrightarrow> x \<in> parseLoop lines i b ig"
proof (induction "length lines - i" arbitrary: i b ig)
  case 0
  then show ?case by (subst parseLoop.simps) (simp del: parseLoop.simps)
next
  case (Suc d)
  have step: "\<And>b' ig'. x \<in> ig' \<Longrightarrow> x \<in> parseLoop lines (Suc i) b' ig'"
    using Suc.hyps by simp
  show ?case
    apply (subst parseLoop.simps)
    using Suc.prems step by (simp add: Let_def del: parseLoop.simps)
qed

lemma parseLoop_block_sentinel:
  "i \<le> j \<Longrightarrow> j < length lines \<Longrightarrow> includes_js (lines ! j) DISABLE \<Longrightarrow>
   Suc j \<in> parseLoop lines i b ig"
proof (induction "j - i" arbitrary: i b ig)
  case 0
  then have "i = j" by simp
  then show ?case
    apply (subst parseLoop.simps)
    using 0 by (simp add: Let_def parseLoop_mem del: parseLoop.simps)
next
  case (Suc d)
  then have lt: "i < j" "i < length lines" by simp_all
  have step: "\<And>b' ig'. Suc j \<in> parseLoop lines (Suc i) b' ig'"
    using Suc.hyps Suc.prems lt by simp
  show ?case
    apply (subst parseLoop.simps)
    using lt step by (simp add: Let_def del: parseLoop.simps)
qed

lemma sentinel_line_is_ignored:
  "j < length lines \<Longrightarrow> includes_js (lines ! j) DISABLE_NEXT_LINE \<Longrightarrow>
   Suc j \<in> parseInlineIgnoreComments lines"
  unfolding parseInlineIgnoreComments_def
  by (rule parseLoop_block_sentinel) (auto intro: next_line_is_block)


lemma split_suppressed: "split_js newline suppressed_source = suppressed_lines"
  by code_simp

lemma parse_suppressed: "parseInlineIgnoreComments suppressed_lines = {1, 2, 3}"
  by (auto simp add: parseInlineIgnoreComments_def suppressed_lines_def DISABLE_def ENABLE_def
     DISABLE_NEXT_LINE_def DISABLE_LINE_def lit_def chr_def)

lemma matches_suppressed:
  "findMatches (example_env suppressed_source) (lit ''a.js'') (lit ''sevens'') suppressed_source
     example_pattern
   = [\<lparr>m_index = 38, m_text = lit ''77''\<rparr>, \<lparr>m_index = 41, m_text = lit ''77''\<rparr>]"
  by code_simp

lemma lines_suppressed:
  "lineNumberOf suppressed_source 38 = 2" "lineNumberOf suppressed_source 41 = 3"
  by code_simp+

text \<open>
  C1. The parser is claimed to add exactly the line after a disable-next-line sentinel,
  so that a credential on the line after the sentinel is suppressed while the same
  credential on an adjacent unmarked line is still reported. On the three-line file
  above the parser returns all three line numbers, not just 2: the sentinel line
  contains the block sentinel \<open>hardcoded-detector:disable\<close>, which is tested first and
  opens a disabled block. The pattern matches on lines 2 and 3, and the analysis of the
  file reports nothing, although line 3 is unmarked and carries the credential.
\<close>

theorem next_line_sentinel_opens_block:
  "parseInlineIgnoreComments suppressed_lines = {1, 2, 3} \<and>
   map (\<lambda>m. lineNumberOf suppressed_source (m_index m))
     (findMatches (example_env suppressed_source) (lit ''a.js'') (lit ''sevens'')
        suppressed_source example_pattern) = [2, 3] \<and>
   analyzeContent \<lparr>analyzer_patterns = [(lit ''sevens'', example_pattern)]\<rparr>
     (example_env suppressed_source) (lit ''a.js'') no_options = Returns []"
proof -
  have size: "fs_stat (example_env suppressed_source) (lit ''a.js'') = Inr 43"
    by code_simp
  have bin: "\<not> isBinaryFile (example_env suppressed_source) (lit ''a.js'')"
    by code_simp
  have rd: "fs_readFile (example_env suppressed_source) (lit ''a.js'') = Inr suppressed_source"
    by (simp add: example_env_def)
  have skip: "\<not> shouldSkipPattern (lit ''sevens'') example_pattern no_options"
    by code_simp
  have len: "length suppressed_lines = 3"
    by (simp add: suppressed_lines_def)
  show ?thesis
    by (simp add: analyzeContent_def analyzeContent_try_def size bin rd MAX_FILE_SIZE_def
        MAX_LINES_def split_suppressed parse_suppressed skip matches_suppressed lines_suppressed
        len Let_def)
qed

section \<open>The match-count ceiling\<close>

lemma execLoop_NoMatch:
  "exec E regex s lastIndex = (NoMatch, li) \<Longrightarrow>
   execLoop E now regex s timeout lastIndex matchCount matches = Inr matches"
  by (subst execLoop.simps) simp

lemma execLoop_Match:
  "exec E regex s lastIndex = (Match i t, li) \<Longrightarrow>
   execLoop E now regex s timeout lastIndex matchCount matches =
     (if now (matchCount + 1) - now 0 > timeout then Inl (Timeout timeout)
      else if matchCount > MAX_MATCHES then Inl TooManyMatches
      else execLoop E now regex s timeout (if i = li then li + 1 else li) (matchCount + 1)
             (matches @ [\<lparr>m_index = i, m_text = t\<rparr>]))"
  by (subst execLoop.simps) simp

lemma dot_exec_match:
  "k < n \<Longrightarrow> cls_ok Dot a \<Longrightarrow> exec dot_engine () (replicate n a) k = (Match k [a], k + 1)"
  by (simp add: dot_engine_def upt_conv_Cons del: cls_ok.simps)

lemma dot_exec_end:
  "n \<le> k \<Longrightarrow> exec dot_engine () (replicate n a) k = (NoMatch, 0)"
  by (simp add: dot_engine_def)

text \<open>
  \<^verbatim>\<open>/./g\<close> over \<open>n\<close> copies of one character, with a clock that stands still: the
  loop started at position \<open>k\<close> with \<open>k\<close> matches counted returns every match when
  \<open>n \<le> MAX_MATCHES + 1\<close> and throws otherwise.
\<close>

lemma execLoop_dot:
  assumes "cls_ok Dot a" and "0 \<le> timeout"
  shows "k \<le> n \<Longrightarrow> k \<le> MAX_MATCHES + 1 \<Longrightarrow>
     execLoop dot_engine (\<lambda>j. 0) () (replicate n a) timeout k k ms =
       (if n \<le> MAX_MATCHES + 1
        then Inr (ms @ map (\<lambda>i. \<lparr>m_index = i, m_text = [a]\<rparr>) [k..<n])
        else Inl TooManyMatches)"
proof (induction "n - k" arbitrary: k ms)
  case 0
  then have "k = n" by simp
  then show ?case using 0 by (simp add: execLoop_NoMatch [OF dot_exec_end])
next
  case (Suc d)
  then have lt: "k < n" by simp
  note step = execLoop_Match [OF dot_exec_match [OF lt assms(1)]]
  show ?case
  proof (cases "k > MAX_MATCHES")
    case True
    with lt show ?thesis using assms(2) by (simp add: step)
  next
    case False
    have "d = n - (k + 1)" using Suc.hyps(2) by simp
    moreover have "k + 1 \<le> n" using lt by simp
    moreover have "k + 1 \<le> MAX_MATCHES + 1" using False by simp
    ultimately have IH:
      "execLoop dot_engine (\<lambda>j. 0) () (replicate n a) timeout (k + 1) (k + 1)
         (ms @ [\<lparr>m_index = k, m_text = [a]\<rparr>]) =
       (if n \<le> MAX_MATCHES + 1
        then Inr ((ms @ [\<lparr>m_index = k, m_text = [a]\<rparr>])
                  @ map (\<lambda>i. \<lparr>m_index = i, m_text = [a]\<rparr>) [k + 1..<n])
        else Inl TooManyMatches)"
      using Suc.hyps(1) by blast
    show ?thesis using False lt assms(2) IH by (simp add: step upt_conv_Cons)
  qed
qed

lemma dot_a: "cls_ok Dot (chr CHR ''a'')"
  by (simp add: chr_def)

text \<open>
  C5. Execution is claimed to fail with the too-many-matches error whenever the number
  of matches exceeds the ceiling of 10000, in particular for a pattern that matches
  every character of a content longer than the ceiling. With \<^verbatim>\<open>/./g\<close> on 10001
  characters \<open>a\<close> the code returns all 10001 matches; the error comes only with the
  10002nd match, because \<open>matchCount++ > MAX_MATCHES\<close> tests the count before the
  increment.
\<close>

theorem ceiling_is_off_by_one:
  "safeRegexExec dot_engine (\<lambda>k. 0) ((), 0) (replicate 10001 (chr CHR ''a'')) DEFAULT_TIMEOUT
     = Inr (map (\<lambda>i. \<lparr>m_index = i, m_text = [chr CHR ''a'']\<rparr>) [0..<10001])
   \<and> safeRegexExec dot_engine (\<lambda>k. 0) ((), 0) (replicate 10002 (chr CHR ''a'')) DEFAULT_TIMEOUT
     = Inl TooManyMatches"
  using execLoop_dot [OF dot_a, of DEFAULT_TIMEOUT 0 10001 "[]"]
        execLoop_dot [OF dot_a, of DEFAULT_TIMEOUT 0 10002 "[]"]
  by (simp add: safeRegexExec_def DEFAULT_TIMEOUT_def MAX_MATCHES_def)

section \<open>Entropy\<close>

text \<open>
  The entropy is never negative, and it is \<open>log2 n\<close> for \<open>n\<close> characters of equal
  frequency when every character of the string is a single code unit; in particular it
  is 0 for one repeated character of the Basic Multilingual Plane.
\<close>

lemma entropy_fold:
  fixes f :: "nat \<Rightarrow> real"
  shows "foldl (\<lambda>e (ch, n). e - f n) e0 fs = e0 - sum_list (map (\<lambda>(ch, n). f n) fs)"
  by (induction fs arbitrary: e0) (auto simp: algebra_simps)

lemma keys_bump:
  "map fst (bump fs ch) = (if ch \<in> fst ` set fs then map fst fs else map fst fs @ [ch])"
  by (induction fs) (fastforce simp: image_iff)+

lemma map_of_bump:
  "map_of (bump fs ch) = (map_of fs)(ch \<mapsto> (case map_of fs ch of None \<Rightarrow> 1 | Some n \<Rightarrow> n + 1))"
  by (induction fs) (auto simp: fun_eq_iff)

lemma sum_bump: "sum_list (map snd (bump fs ch)) = sum_list (map snd fs) + 1"
  by (induction fs) auto

lemma distinct_counts: "distinct (map fst (foldl bump [] xs))"
  by (induction xs rule: rev_induct) (simp_all add: keys_bump)

lemma sum_counts: "sum_list (map snd (foldl bump [] xs)) = length xs"
  by (induction xs rule: rev_induct) (simp_all add: sum_bump)

lemma map_of_counts:
  "map_of (foldl bump [] xs) c = (if c \<in> set xs then Some (count_list xs c) else None)"
proof (induction xs rule: rev_induct)
  case Nil
  then show ?case by simp
next
  case (snoc x xs)
  then show ?case by (auto simp: map_of_bump count_list_0_iff)
qed

lemma counts_are_counts:
  "(c, n) \<in> set (foldl bump [] xs) \<Longrightarrow> c \<in> set xs \<and> n = count_list xs c"
proof -
  assume "(c, n) \<in> set (foldl bump [] xs)"
  then have "map_of (foldl bump [] xs) c = Some n"
    using distinct_counts by (simp add: map_of_eq_Some_iff)
  then show ?thesis by (auto simp: map_of_counts split: if_splits)
qed

lemma keys_counts: "set (map fst (foldl bump [] xs)) = set xs"
proof -
  have "dom (map_of (foldl bump [] xs)) = set xs"
    by (auto simp: map_of_counts dom_def)
  then show ?thesis by (simp add: dom_map_of_conv_image_fst)
qed

lemma chars_of_length: "length (chars_of s) \<le> length s"
  by (induction s rule: chars_of.induct) auto

lemma count_pos: "c \<in> set xs \<Longrightarrow> 0 < count_list xs c"
  by (simp add: count_list_0_iff zero_less_iff_neq_zero)

lemma calculateEntropy_nonneg: "0 \<le> calculateEntropy str"
proof (cases "str = []")
  case True
  then show ?thesis by (simp add: calculateEntropy_def)
next
  case False
  let ?L = "real (length str)"
  let ?F = "frequencies str"
  have L: "0 < ?L" using False by simp
  have tm: "(case x of (ch, n) \<Rightarrow> real n / ?L * log 2 (real n / ?L)) \<le> 0"
    if "x \<in> set ?F" for x
  proof -
    obtain c n where x: "x = (c, n)" by (cases x)
    with that have c: "c \<in> set (chars_of str)" "n = count_list (chars_of str) c"
      using counts_are_counts unfolding frequencies_def by blast+
    then have pos: "0 < n" using count_pos by simp
    have "n \<le> length (chars_of str)" using c(2) by (simp add: count_le_length)
    then have "n \<le> length str" using chars_of_length le_trans by blast
    then have "real n / ?L \<le> 1" using L by simp
    moreover have "0 < real n / ?L" using pos L by simp
    ultimately have "log 2 (real n / ?L) \<le> 0" and "0 \<le> real n / ?L" by simp_all
    then have "real n / ?L * log 2 (real n / ?L) \<le> 0"
      by (intro mult_nonneg_nonpos)
    then show ?thesis unfolding x by (simp only: prod.case)
  qed
  have "sum_list (map (\<lambda>(ch, n). real n / ?L * log 2 (real n / ?L)) ?F) \<le> 0"
  proof (rule sum_list_nonpos)
    fix y assume "y \<in> set (map (\<lambda>(ch, n). real n / ?L * log 2 (real n / ?L)) ?F)"
    then obtain x where "x \<in> set ?F"
      "y = (case x of (ch, n) \<Rightarrow> real n / ?L * log 2 (real n / ?L))" by auto
    then show "y \<le> 0" using tm by simp
  qed
  then show ?thesis using False
    by (simp add: calculateEntropy_def Let_def entropy_fold)
qed

lemma calculateEntropy_uniform:
  assumes "str \<noteq> []" and "length (chars_of str) = length str"
    and "\<forall>c \<in> set (chars_of str). count_list (chars_of str) c = k"
  shows "calculateEntropy str = log 2 (real (card (set (chars_of str))))"
proof -
  let ?xs = "chars_of str"
  let ?F = "frequencies str"
  let ?n = "card (set ?xs)"
  let ?L = "real (length str)"
  have xs: "?xs \<noteq> []" using assms(1,2) by auto
  have lenF: "length ?F = ?n"
    using distinct_counts [of ?xs] keys_counts [of ?xs] distinct_card [of "map fst (foldl bump [] ?xs)"]
    by (simp add: frequencies_def)
  have all_k: "\<forall>x \<in> set ?F. snd x = k"
    using counts_are_counts assms(3) unfolding frequencies_def by fastforce
  then have snds: "map snd ?F = replicate (length ?F) k"
    by (simp add: map_replicate_const [symmetric] cong: map_cong)
  have "sum_list (map snd ?F) = length ?xs"
    unfolding frequencies_def by (rule sum_counts)
  then have nk: "?n * k = length str"
    using snds lenF assms(2) by (simp add: sum_list_replicate)
  have npos: "0 < ?n" using xs by (simp add: card_gt_0_iff)
  have kpos: "0 < k" using nk assms(1) by (cases k) auto
  have p: "real k / ?L = 1 / real ?n"
    using nk [symmetric] kpos npos by (simp add: field_simps)
  have "(case x of (ch, n) \<Rightarrow> real n / ?L * log 2 (real n / ?L))
        = 1 / real ?n * log 2 (1 / real ?n)" if "x \<in> set ?F" for x
  proof -
    obtain c n where x: "x = (c, n)" by (cases x)
    with that all_k have "n = k" by auto
    then have "real n / ?L = 1 / real ?n" using p by simp
    then show ?thesis unfolding x by (simp only: prod.case)
  qed
  then have "map (\<lambda>(ch, n). real n / ?L * log 2 (real n / ?L)) ?F
        = map (\<lambda>x. 1 / real ?n * log 2 (1 / real ?n)) ?F"
    by (intro map_cong refl)
  then have "sum_list (map (\<lambda>(ch, n). real n / ?L * log 2 (real n / ?L)) ?F)
        = real (length ?F) * (1 / real ?n * log 2 (1 / real ?n))"
    by (simp only: sum_list_triv)
  also have "\<dots> = real ?n * (1 / real ?n * log 2 (1 / real ?n))"
    by (simp only: lenF)
  also have "\<dots> = - log 2 (real ?n)"
    using npos xs by (simp add: log_divide)
  finally show ?thesis using assms(1)
    by (simp add: calculateEntropy_def Let_def entropy_fold)
qed

lemma chars_of_bmp:
  "\<forall>u \<in> set s. \<not> isHighSurrogate u \<Longrightarrow> chars_of s = map (\<lambda>u. [u]) s"
  by (induction s rule: chars_of.induct) auto

lemma count_list_replicate: "count_list (replicate m x) x = m"
  by (induction m) auto

lemma calculateEntropy_repeated:
  assumes "\<not> isHighSurrogate c" and "0 < m"
  shows "calculateEntropy (replicate m c) = 0"
proof -
  have ch: "chars_of (replicate m c) = replicate m [c]"
    using assms(1) by (simp add: chars_of_bmp map_replicate_const [symmetric])
  have "calculateEntropy (replicate m c) = log 2 (real (card (set (chars_of (replicate m c)))))"
    using assms(2) by (intro calculateEntropy_uniform [where k = m]) (auto simp: ch count_list_replicate)
  then show ?thesis using assms(2) by (simp add: ch)
qed


text \<open>
  C9. The entropy is claimed to be 0 for a string made of one repeated character. The
  string that consists of the single character U+1F600 is the two code units D83D DE00:
  the iterator yields one character, counted once, while \<open>str.length\<close> is 2, so the
  probability is 1/2 and the result is 1/2, not 0.
\<close>

theorem entropy_of_one_astral_character:
  "chars_of [0xD83D, 0xDE00] = [[0xD83D, 0xDE00]] \<and> calculateEntropy [0xD83D, 0xDE00] = 1 / 2"
  by (simp add: calculateEntropy_def frequencies_def isHighSurrogate_def isLowSurrogate_def
      log_divide)

text \<open>
  C6. For every string the classifier returns the entropy together with: level high and
  secret when the entropy is at least 5; level medium and secret when it is at least 4
  and below 5; level medium and not secret when it is at least 3.5 and below 4; level
  low and not secret otherwise. The classifier is a total function of the string.
\<close>

theorem analyzeEntropy_classes:
  "entropy (analyzeEntropy s) = calculateEntropy s \<and>
   ((5 \<le> calculateEntropy s \<and> level (analyzeEntropy s) = High \<and> isSecret (analyzeEntropy s) = True)
    \<or> (4 \<le> calculateEntropy s \<and> calculateEntropy s < 5 \<and>
         level (analyzeEntropy s) = Medium \<and> isSecret (analyzeEntropy s) = True)
    \<or> (7 / 2 \<le> calculateEntropy s \<and> calculateEntropy s < 4 \<and>
         level (analyzeEntropy s) = Medium \<and> isSecret (analyzeEntropy s) = False)
    \<or> (calculateEntropy s < 7 / 2 \<and>
         level (analyzeEntropy s) = Low \<and> isSecret (analyzeEntropy s) = False))"
  by (simp add: analyzeEntropy_def Let_def)

section \<open>The baseline\<close>


lemma filterLoop_nonempty: "\<forall>r \<in> set (filterLoop C bl rs). fr_findings r \<noteq> []"
  by (induction rs) (auto simp: Let_def)

lemma filterLoop_length:
  "length (filterLoop C bl rs) =
     length (filter (\<lambda>r. \<exists>f \<in> set (fr_findings r). \<not> isBaselined C bl f (fr_file r)) rs)"
  by (induction rs) (auto simp: Let_def filter_empty_conv)

lemma isBaselined_None: "isBaselined C None f p = False"
  by (simp add: isBaselined_def)

text \<open>
  C10. When every entry of the input has at least one finding, every entry of the output
  of \<open>filterFindings\<close> has at least one finding: an entry whose findings are all
  baselined is dropped, not kept with an empty list. Without a loaded baseline the input
  comes back unchanged. So \<open>filesWithIssues\<close>, the length of the filtered list, is the
  number of files with at least one finding that is not baselined.
\<close>

theorem filterFindings_nonempty:
  assumes "\<forall>r \<in> set rs. fr_findings r \<noteq> []"
  shows "(\<forall>r \<in> set (filterFindings C bl rs). fr_findings r \<noteq> []) \<and>
         filterFindings C None rs = rs \<and>
         filesWithIssues (formatResults n (filterFindings C bl rs)) =
           length (filter (\<lambda>r. \<exists>f \<in> set (fr_findings r). \<not> isBaselined C bl f (fr_file r)) rs)"
proof (intro conjI)
  show "\<forall>r \<in> set (filterFindings C bl rs). fr_findings r \<noteq> []"
    using assms filterLoop_nonempty by (cases bl) (auto simp: filterFindings_def)
  show "filterFindings C None rs = rs"
    by (simp add: filterFindings_def)
  show "filesWithIssues (formatResults n (filterFindings C bl rs)) =
           length (filter (\<lambda>r. \<exists>f \<in> set (fr_findings r). \<not> isBaselined C bl f (fr_file r)) rs)"
  proof (cases bl)
    case None
    have "filter (\<lambda>r. \<exists>f \<in> set (fr_findings r). True) rs = rs"
      using assms by (induction rs) auto
    then show ?thesis using None
      by (simp add: filterFindings_def formatResults_def Let_def isBaselined_None)
  next
    case (Some b)
    then show ?thesis
      by (simp add: filterFindings_def formatResults_def Let_def filterLoop_length)
  qed
qed

lemma unchanged_finding_is_baselined: "isBaselined example_crypto (Some (generateBaseline example_crypto baselined_scan None))
   (example_finding (lit ''77'') 3) (lit ''a.js'')"
  by code_simp

lemma changed_finding_is_not_baselined: "\<not> isBaselined example_crypto (Some (generateBaseline example_crypto baselined_scan None))
   (example_finding (lit ''78'') 5) (lit ''b.js'')"
  by code_simp


theorem filterFindings_nonempty_witness:
  "fr_findings (later_scan ! 0) \<noteq> [] \<and> fr_findings (later_scan ! 1) \<noteq> [] \<and>
   filterFindings example_crypto None later_scan = later_scan \<and>
   filesWithIssues (formatResults 2 (filterFindings example_crypto
      (Some (generateBaseline example_crypto baselined_scan None)) later_scan)) = 1"
proof -
  have h: "\<forall>r \<in> set later_scan. fr_findings r \<noteq> []"
    by (simp add: later_scan_def)
  show ?thesis
    using filterFindings_nonempty [OF h, of example_crypto
        "Some (generateBaseline example_crypto baselined_scan None)" 2]
    by (simp add: later_scan_def unchanged_finding_is_baselined changed_finding_is_not_baselined)
qed

lemma filterLoop_keeps:
  "r \<in> set rs \<Longrightarrow> f \<in> set (fr_findings r) \<Longrightarrow> \<not> isBaselined C bl f (fr_file r) \<Longrightarrow>
   \<exists>r' \<in> set (filterLoop C bl rs). fr_file r' = fr_file r \<and> f \<in> set (fr_findings r')"
proof (induction rs)
  case Nil
  then show ?case by simp
next
  case (Cons a rs)
  show ?case
  proof (cases "r = a")
    case True
    with Cons.prems have "f \<in> set (filter (\<lambda>g. \<not> isBaselined C bl g (fr_file a)) (fr_findings a))"
      by simp
    then have "filter (\<lambda>g. \<not> isBaselined C bl g (fr_file a)) (fr_findings a) \<noteq> []"
      and "f \<in> set (fr_findings a)" and "\<not> isBaselined C bl f (fr_file a)"
      by (auto simp: filter_empty_conv)
    then show ?thesis using True by (simp add: Let_def)
  next
    case False
    with Cons have "\<exists>r' \<in> set (filterLoop C bl rs). fr_file r' = fr_file r \<and> f \<in> set (fr_findings r')"
      by simp
    then show ?thesis by (auto simp: Let_def)
  qed
qed

lemma isBaselined_iff:
  "isBaselined C this_baseline f p \<longleftrightarrow>
     (\<exists>bl files e. this_baseline = Some bl \<and> b_files bl = Some files \<and>
        map_of files (baselineKey p (f_line f)) = Some e \<and>
        b_hash e = Some (generateFindingHash C f p))"
  by (auto simp: isBaselined_def Let_def split: option.splits)

lemma filterLoop_sound:
  "r' \<in> set (filterLoop C bl rs) \<Longrightarrow> g \<in> set (fr_findings r') \<Longrightarrow>
   \<not> isBaselined C bl g (fr_file r')"
  by (induction rs) (auto simp: Let_def split: if_splits)

lemma hash_of_tuple:
  "generateFindingHash C f p = sha256_hex C (JSON_stringify C (hashedTuple f p))"
  by (simp add: generateFindingHash_def hashedTuple_def)

text \<open>
  C3. The hash of a finding is the digest of the serialised tuple of file path, line,
  pattern id and matched text, and of nothing else. \<open>isBaselined\<close> holds exactly when
  a baseline is loaded, it has an entry at the key \<open>file:line\<close>, and the hash stored
  there equals the hash recomputed from the current finding. Let the entry at the key of
  file \<open>p\<close> and the line of \<open>f0\<close> store the hash of \<open>f0\<close>, the finding originally
  baselined. A current finding \<open>f\<close> on the same line of \<open>p\<close> whose matched text
  differs from that of \<open>f0\<close> is not baselined and \<open>filterFindings\<close> keeps it,
  provided the digest tells the two tuples apart. A current finding with the line, id and
  matched text of \<open>f0\<close> is baselined and is in no entry of \<open>p\<close> that
  \<open>filterFindings\<close> returns.
\<close>

theorem baseline_hash_check:
  "generateFindingHash C f p = sha256_hex C (JSON_stringify C (hashedTuple f p))
   \<and> (isBaselined C this_baseline f p \<longleftrightarrow>
        (\<exists>bl files e. this_baseline = Some bl \<and> b_files bl = Some files \<and>
           map_of files (baselineKey p (f_line f)) = Some e \<and>
           b_hash e = Some (generateFindingHash C f p)))
   \<and> (this_baseline = Some bl \<and> b_files bl = Some files \<and>
        map_of files (baselineKey p (f_line f0)) = Some e \<and>
        b_hash e = Some (generateFindingHash C f0 p) \<and>
        f_line f = f_line f0 \<and> f_match f \<noteq> f_match f0 \<and>
        collision_free C (hashedTuple f p) (hashedTuple f0 p) \<and>
        r \<in> set rs \<and> fr_file r = p \<and> f \<in> set (fr_findings r)
        \<longrightarrow> \<not> isBaselined C this_baseline f p \<and>
            (\<exists>r' \<in> set (filterFindings C this_baseline rs).
               fr_file r' = p \<and> f \<in> set (fr_findings r')))
   \<and> (this_baseline = Some bl \<and> b_files bl = Some files \<and>
        map_of files (baselineKey p (f_line f0)) = Some e \<and>
        b_hash e = Some (generateFindingHash C f0 p) \<and>
        f_line f = f_line f0 \<and> f_id f = f_id f0 \<and> f_match f = f_match f0
        \<longrightarrow> isBaselined C this_baseline f p \<and>
            (\<forall>r' \<in> set (filterFindings C this_baseline rs).
               fr_file r' = p \<longrightarrow> f \<notin> set (fr_findings r')))"
proof (intro conjI impI)
  show "generateFindingHash C f p = sha256_hex C (JSON_stringify C (hashedTuple f p))"
    by (rule hash_of_tuple)
  show "isBaselined C this_baseline f p \<longleftrightarrow>
     (\<exists>bl files e. this_baseline = Some bl \<and> b_files bl = Some files \<and>
        map_of files (baselineKey p (f_line f)) = Some e \<and>
        b_hash e = Some (generateFindingHash C f p))"
    by (rule isBaselined_iff)
next
  assume a: "this_baseline = Some bl \<and> b_files bl = Some files \<and>
        map_of files (baselineKey p (f_line f0)) = Some e \<and>
        b_hash e = Some (generateFindingHash C f0 p) \<and>
        f_line f = f_line f0 \<and> f_match f \<noteq> f_match f0 \<and>
        collision_free C (hashedTuple f p) (hashedTuple f0 p) \<and>
        r \<in> set rs \<and> fr_file r = p \<and> f \<in> set (fr_findings r)"
  then have "hashedTuple f p \<noteq> hashedTuple f0 p"
    by (simp add: hashedTuple_def)
  with a have ne: "generateFindingHash C f p \<noteq> generateFindingHash C f0 p"
    by (simp add: hash_of_tuple collision_free_def)
  with a show nb: "\<not> isBaselined C this_baseline f p"
    by (auto simp: isBaselined_iff)
  with a have "\<exists>r' \<in> set (filterLoop C this_baseline rs).
      fr_file r' = fr_file r \<and> f \<in> set (fr_findings r')"
    using filterLoop_keeps by blast
  with a show "\<exists>r' \<in> set (filterFindings C this_baseline rs).
      fr_file r' = p \<and> f \<in> set (fr_findings r')"
    by (auto simp: filterFindings_def)
next
  assume a: "this_baseline = Some bl \<and> b_files bl = Some files \<and>
        map_of files (baselineKey p (f_line f0)) = Some e \<and>
        b_hash e = Some (generateFindingHash C f0 p) \<and>
        f_line f = f_line f0 \<and> f_id f = f_id f0 \<and> f_match f = f_match f0"
  then have "generateFindingHash C f p = generateFindingHash C f0 p"
    by (simp add: generateFindingHash_def)
  with a show b: "isBaselined C this_baseline f p"
    by (auto simp: isBaselined_iff)
  show "\<forall>r' \<in> set (filterFindings C this_baseline rs).
               fr_file r' = p \<longrightarrow> f \<notin> set (fr_findings r')"
    using a b filterLoop_sound [of _ C this_baseline rs f]
    by (auto simp: filterFindings_def)
qed

lemma changed_match_changes_hash: "generateFindingHash example_crypto (example_finding (lit ''78'') 5) (lit ''b.js'')
    \<noteq> generateFindingHash example_crypto (example_finding (lit ''77'') 5) (lit ''b.js'')"
  by code_simp

lemma original_finding_is_baselined: "isBaselined example_crypto (Some (generateBaseline example_crypto baselined_scan None))
   (example_finding (lit ''77'') 5) (lit ''b.js'')"
  by code_simp

lemma example_collision_free:
  "collision_free example_crypto (hashedTuple (example_finding (lit ''78'') 5) (lit ''b.js''))
     (hashedTuple (example_finding (lit ''77'') 5) (lit ''b.js''))"
  by (simp add: collision_free_def hashedTuple_def example_crypto_def example_finding_def
      lit_def chr_def)

theorem baseline_hash_check_witness:
  "isBaselined example_crypto (Some (generateBaseline example_crypto baselined_scan None))
     (example_finding (lit ''77'') 5) (lit ''b.js'') \<and>
   f_match (example_finding (lit ''78'') 5) \<noteq> f_match (example_finding (lit ''77'') 5) \<and>
   f_line (example_finding (lit ''78'') 5) = f_line (example_finding (lit ''77'') 5) \<and>
   collision_free example_crypto (hashedTuple (example_finding (lit ''78'') 5) (lit ''b.js''))
     (hashedTuple (example_finding (lit ''77'') 5) (lit ''b.js'')) \<and>
   \<not> isBaselined example_crypto (Some (generateBaseline example_crypto baselined_scan None))
     (example_finding (lit ''78'') 5) (lit ''b.js'') \<and>
   (\<exists>r' \<in> set (filterFindings example_crypto
                  (Some (generateBaseline example_crypto baselined_scan None)) later_scan).
      fr_file r' = lit ''b.js'' \<and> example_finding (lit ''78'') 5 \<in> set (fr_findings r')) \<and>
   \<not> (\<exists>r' \<in> set (filterFindings example_crypto
                  (Some (generateBaseline example_crypto baselined_scan None)) later_scan).
      fr_file r' = lit ''b.js'' \<and> example_finding (lit ''77'') 5 \<in> set (fr_findings r'))"
proof -
  let ?B = "generateBaseline example_crypto baselined_scan None"
  let ?f = "example_finding (lit ''78'') 5"
  let ?g = "example_finding (lit ''77'') 5"
  let ?r = "\<lparr>fr_file = lit ''b.js'', fr_findings = [?f]\<rparr>"
  have line: "f_line ?f = f_line ?g" "f_id ?g = f_id ?g"
    by (simp_all add: example_finding_def)
  have m: "f_match ?f \<noteq> f_match ?g"
    by code_simp
  from original_finding_is_baselined obtain bl files e where
    e: "Some ?B = Some bl" "b_files bl = Some files"
       "map_of files (baselineKey (lit ''b.js'') (f_line ?g)) = Some e"
       "b_hash e = Some (generateFindingHash example_crypto ?g (lit ''b.js''))"
    using baseline_hash_check [of example_crypto ?g "lit ''b.js''" "Some ?B"]
    by blast
  have r: "?r \<in> set later_scan" "fr_file ?r = lit ''b.js''" "?f \<in> set (fr_findings ?r)"
    by (simp_all add: later_scan_def)
  have drift: "\<not> isBaselined example_crypto (Some ?B) ?f (lit ''b.js'') \<and>
      (\<exists>r' \<in> set (filterFindings example_crypto (Some ?B) later_scan).
         fr_file r' = lit ''b.js'' \<and> ?f \<in> set (fr_findings r'))"
    using baseline_hash_check [of example_crypto ?f "lit ''b.js''" "Some ?B" bl files ?g e ?r later_scan]
      e r m line example_collision_free
    by blast
  have kept: "\<forall>r' \<in> set (filterFindings example_crypto (Some ?B) later_scan).
      fr_file r' = lit ''b.js'' \<longrightarrow> ?g \<notin> set (fr_findings r')"
    using baseline_hash_check [of example_crypto ?g "lit ''b.js''" "Some ?B" bl files ?g e _ later_scan]
      e line
    by blast
  show ?thesis
    using original_finding_is_baselined m line(1) example_collision_free drift kept by blast
qed

section \<open>Guards of the analysis\<close>

lemma split_js_length: "length (split_js sep s) = length (filter (\<lambda>c. c = sep) s) + 1"
  by (induction s) (auto split: list.splits)

lemma split_js_nonempty: "split_js sep s \<noteq> []"
  by (induction s) (auto split: list.splits)

text \<open>
  C4. \<open>analyzeContent\<close> returns the empty list when the file does not exist, when
  access is denied (at \<open>stat\<close> or at \<open>readFile\<close>), when the file is larger than
  10 MiB, when it has more than 100000 lines, and when a null byte is among the first
  min(512, size) bytes read; and it never throws: every call returns a list.
\<close>

theorem analyzeContent_guards:
  "(fs_stat env p = Inl ENOENT \<longrightarrow> analyzeContent A env p opts = Returns []) \<and>
   (fs_stat env p = Inl EACCES \<or> fs_readFile env p = Inl EACCES
      \<longrightarrow> analyzeContent A env p opts = Returns []) \<and>
   (fs_stat env p = Inr n \<and> n > 10 * 1024 * 1024 \<longrightarrow> analyzeContent A env p opts = Returns []) \<and>
   (fs_readFile env p = Inr s \<and> length (split_js newline s) > 100000
      \<longrightarrow> analyzeContent A env p opts = Returns []) \<and>
   (fs_read env p = Inr bytes \<and> (\<exists>i < min 512 (length bytes). bytes ! i = 0)
      \<longrightarrow> analyzeContent A env p opts = Returns []) \<and>
   (\<exists>fs. analyzeContent A env p opts = Returns fs)"
proof (intro conjI impI)
  show "fs_stat env p = Inl ENOENT \<Longrightarrow> analyzeContent A env p opts = Returns []"
    by (simp add: analyzeContent_def analyzeContent_try_def)
  show "fs_stat env p = Inl EACCES \<or> fs_readFile env p = Inl EACCES
      \<Longrightarrow> analyzeContent A env p opts = Returns []"
    by (auto simp: analyzeContent_def analyzeContent_try_def split: sum.splits)
  show "fs_stat env p = Inr n \<and> n > 10 * 1024 * 1024 \<Longrightarrow> analyzeContent A env p opts = Returns []"
    by (simp add: analyzeContent_def analyzeContent_try_def MAX_FILE_SIZE_def)
  show "fs_readFile env p = Inr s \<and> length (split_js newline s) > 100000
      \<Longrightarrow> analyzeContent A env p opts = Returns []"
    by (auto simp: analyzeContent_def analyzeContent_try_def MAX_LINES_def Let_def split: sum.splits)
  show "\<exists>fs. analyzeContent A env p opts = Returns fs"
    by (auto simp: analyzeContent_def split: sum.splits)
next
  assume a: "fs_read env p = Inr bytes \<and> (\<exists>i < min 512 (length bytes). bytes ! i = 0)"
  then obtain i where i: "i < min 512 (length bytes)" "bytes ! i = 0" by blast
  then have "take 512 bytes ! i = 0" "i < length (take 512 bytes)" by simp_all
  then have "0 \<in> set (take 512 bytes)" by (metis nth_mem)
  then have "isBinaryFile env p" using a by (auto simp: isBinaryFile_def list_ex_iff)
  then show "analyzeContent A env p opts = Returns []"
    by (auto simp: analyzeContent_def analyzeContent_try_def split: sum.splits)
qed




theorem analyzeContent_guards_witness:
  "fs_stat missing_env (lit ''a.js'') = Inl ENOENT \<and>
   analyzeContent example_analyzer missing_env (lit ''a.js'') no_options = Returns [] \<and>
   fs_readFile denied_env (lit ''a.js'') = Inl EACCES \<and>
   analyzeContent example_analyzer denied_env (lit ''a.js'') no_options = Returns [] \<and>
   fs_stat huge_env (lit ''a.js'') = Inr 10485761 \<and>
   analyzeContent example_analyzer huge_env (lit ''a.js'') no_options = Returns [] \<and>
   fs_readFile long_env (lit ''a.js'') = Inr (replicate 100000 newline) \<and>
   length (split_js newline (replicate 100000 newline)) = 100001  \<and>
   analyzeContent example_analyzer long_env (lit ''a.js'') no_options = Returns [] \<and>
   fs_read binary_env (lit ''a.js'') = Inr [0x37, 0x00, 0x37] \<and>
   analyzeContent example_analyzer binary_env (lit ''a.js'') no_options = Returns []"
proof -
  have 1: "fs_stat missing_env (lit ''a.js'') = Inl ENOENT"
    by (simp add: missing_env_def example_env_def)
  have 2: "fs_readFile denied_env (lit ''a.js'') = Inl EACCES"
    by (simp add: denied_env_def example_env_def)
  have 3: "fs_stat huge_env (lit ''a.js'') = Inr 10485761"
    by (simp add: huge_env_def example_env_def)
  have 4: "fs_readFile long_env (lit ''a.js'') = Inr (replicate 100000 newline)"
    by (simp add: long_env_def example_env_def)
  have 5: "length (split_js newline (replicate 100000 newline)) = 100001"
    by (simp add: split_js_length)
  have 6: "fs_read binary_env (lit ''a.js'') = Inr [0x37, 0x00, 0x37]"
    by (simp add: binary_env_def example_env_def)
  have 7: "\<exists>i < min 512 (length [0x37, 0x00, 0x37 :: 8 word]). [0x37, 0x00, 0x37 :: 8 word] ! i = 0"
    by (rule exI [of _ 1]) simp
  show ?thesis
    using analyzeContent_guards [of missing_env "lit ''a.js''" example_analyzer no_options]
      analyzeContent_guards [of denied_env "lit ''a.js''" example_analyzer no_options]
      analyzeContent_guards [of huge_env "lit ''a.js''" example_analyzer no_options 10485761]
      analyzeContent_guards [of long_env "lit ''a.js''" example_analyzer no_options _
         "replicate 100000 newline"]
      analyzeContent_guards [of binary_env "lit ''a.js''" example_analyzer no_options _ _
         "[0x37, 0x00, 0x37]"]
      1 2 3 4 5 6 7
    by simp
qed


section \<open>Pattern loading\<close>


lemma map_of_assign1: "map_of (assign1 m k v) = (map_of m)(k \<mapsto> v)"
  by (induction m) (auto simp: fun_eq_iff)


















lemma load_example:
  "loadPatterns (Some example_builtin) (CustomFile example_custom) =
     [(lit ''aws_access_key'', custom_aws_pattern), (lit ''sevens'', example_pattern)]"
  by code_simp

lemma load_worker:
  "loadPatterns (Some example_builtin) NoCustomFile =
     [(lit ''aws_access_key'', aws_pattern), (lit ''legacy'', legacy_pattern)]"
  by code_simp

lemma example_taskOptions:
  "taskOptions example_detector =
     \<lparr>minSeverity = Some (lit ''medium''), disabledPatterns = Some [],
      excludeCategories = Some [], opt_useEntropyFilter = False\<rparr>"
  by (simp add: taskOptions_def example_detector_def new_HardcodedApiDetector_def
      example_user_options_def)

lemma example_no_skip:
  "\<not> shouldSkipPattern (lit ''aws_access_key'') custom_aws_pattern (taskOptions example_detector)"
  "\<not> shouldSkipPattern (lit ''aws_access_key'') aws_pattern (taskOptions example_detector)"
  "\<not> shouldSkipPattern (lit ''sevens'') example_pattern (taskOptions example_detector)"
  "\<not> shouldSkipPattern (lit ''legacy'') legacy_pattern (taskOptions example_detector)"
  unfolding example_taskOptions by code_simp+

lemma example_matches:
  "findMatches (example_env (lit ''77'')) (lit ''a.js'') (lit ''aws_access_key'') (lit ''77'')
     custom_aws_pattern = []"
  "findMatches (example_env (lit ''77'')) (lit ''a.js'') (lit ''aws_access_key'') (lit ''77'')
     aws_pattern = []"
  "findMatches (example_env (lit ''77'')) (lit ''a.js'') (lit ''legacy'') (lit ''77'')
     legacy_pattern = []"
  "findMatches (example_env (lit ''77'')) (lit ''a.js'') (lit ''sevens'') (lit ''77'')
     example_pattern = [\<lparr>m_index = 0, m_text = lit ''77''\<rparr>]"
  by code_simp+

lemma example_file:
  "fs_stat (example_env (lit ''77'')) (lit ''a.js'') = Inr 2"
  "\<not> isBinaryFile (example_env (lit ''77'')) (lit ''a.js'')"
  "fs_readFile (example_env (lit ''77'')) (lit ''a.js'') = Inr (lit ''77'')"
  "split_js newline (lit ''77'') = [lit ''77'']"
  "lineNumberOf (lit ''77'') 0 = 1"
  by code_simp+

lemma example_ignored: "parseInlineIgnoreComments [lit ''77''] = {}"
  by (simp add: parseInlineIgnoreComments_def DISABLE_def ENABLE_def DISABLE_NEXT_LINE_def
      DISABLE_LINE_def lit_def chr_def)

lemma example_no_filter: "useEntropyFilter example_pattern = False"
  by (simp add: example_pattern_def)

lemma analyze_main:
  "analyzeContent (new_ContentAnalyzer (Some example_builtin) (CustomFile example_custom))
     (example_env (lit ''77'')) (lit ''a.js'') (taskOptions example_detector)
   = Returns [sevens_finding]"
  by (simp add: analyzeContent_def analyzeContent_try_def new_ContentAnalyzer_def load_example
      example_file MAX_FILE_SIZE_def MAX_LINES_def example_ignored example_no_skip
      example_matches Let_def sevens_finding_def example_no_filter)

lemma analyze_worker:
  "analyzeContent (worker_analyzer (Some example_builtin))
     (example_env (lit ''77'')) (lit ''a.js'') (taskOptions example_detector)
   = Returns []"
  by (simp add: analyzeContent_def analyzeContent_try_def worker_analyzer_def
      new_ContentAnalyzer_def load_worker
      example_file MAX_FILE_SIZE_def MAX_LINES_def example_ignored example_no_skip
      example_matches Let_def)

lemma sevens_finding_fields:
  "f_id sevens_finding = lit ''sevens''" "f_severity sevens_finding = lit ''high''"
  "f_line sevens_finding = 1" "f_match sevens_finding = lit ''77''"
  by (simp_all add: sevens_finding_def makeFinding_def example_pattern_def or_default_def
      lit_def)


lemma example_detector_fields:
  "d_analyzer example_detector =
     new_ContentAnalyzer (Some example_builtin) (CustomFile example_custom)"
  "d_useBaseline example_detector = False"
  "d_workerCount example_detector = None"
  by (simp_all add: example_detector_def new_HardcodedApiDetector_def example_user_options_def)

text \<open>
  C2. The sequential and the parallel strategy are claimed to give the same summary
  counts, the same \<open>filesWithIssues\<close> and the same findings per file for every file
  list and every option set. With a custom patterns file among the options they differ:
  the detector's own analyzer is built with the custom patterns, the worker's analyzer
  with \<open>new ContentAnalyzer()\<close>, that is from the built-in catalog alone. Here the one
  file contains \<open>77\<close>, which only the custom pattern \<open>sevens\<close> matches: the sequential
  scan reports one file with one finding of severity high, the parallel scan nothing.
\<close>

theorem parallel_scan_drops_custom_patterns:
  "scanSingleThreaded example_crypto example_detector (example_env (lit ''77'')) None
     [lit ''a.js'']
   = Returns \<lparr>totalFiles = 1, filesWithIssues = 1,
        summary = [(lit ''critical'', 0), (lit ''high'', 1), (lit ''medium'', 0), (lit ''low'', 0)],
        result_findings = [\<lparr>fr_file = lit ''a.js'', fr_findings = [sevens_finding]\<rparr>]\<rparr>
   \<and> scanParallel example_crypto (Some example_builtin) 4 example_detector
       (example_env (lit ''77'')) None [lit ''a.js'']
   = Returns \<lparr>totalFiles = 1, filesWithIssues = 0,
        summary = [(lit ''critical'', 0), (lit ''high'', 0), (lit ''medium'', 0), (lit ''low'', 0)],
        result_findings = []\<rparr>"
proof
  have ne: "lit ''critical'' \<noteq> lit ''high''"
    by (simp add: lit_def chr_def)
  show "scanSingleThreaded example_crypto example_detector (example_env (lit ''77'')) None
     [lit ''a.js'']
   = Returns \<lparr>totalFiles = 1, filesWithIssues = 1,
        summary = [(lit ''critical'', 0), (lit ''high'', 1), (lit ''medium'', 0), (lit ''low'', 0)],
        result_findings = [\<lparr>fr_file = lit ''a.js'', fr_findings = [sevens_finding]\<rparr>]\<rparr>"
    by (simp add: scanSingleThreaded_def example_detector_fields analyze_main applyBaseline_def
        formatResults_def sevens_finding_fields ne)
  show "scanParallel example_crypto (Some example_builtin) 4 example_detector
       (example_env (lit ''77'')) None [lit ''a.js'']
   = Returns \<lparr>totalFiles = 1, filesWithIssues = 0,
        summary = [(lit ''critical'', 0), (lit ''high'', 0), (lit ''medium'', 0), (lit ''low'', 0)],
        result_findings = []\<rparr>"
    by (simp add: scanParallel_def example_detector_fields worker_onMessage_def analyze_worker
        applyBaseline_def formatResults_def)
qed


text \<open>
  Without a custom patterns file the detector's analyzer is the worker's analyzer, and
  with at least one worker in the pool the two strategies agree. A pool of size 0 never
  finishes a scan of a non-empty file list.
\<close>

lemma analyzeContent_returns: "\<exists>fs. analyzeContent A env p opts = Returns fs"
  by (auto simp: analyzeContent_def split: sum.splits)

lemma sequentialLoop_as_messages:
  assumes "d_analyzer D = worker_analyzer builtin"
  shows "sequentialLoop D env files =
     Returns (map (\<lambda>r. \<lparr>fr_file = r_filePath r, fr_findings = r_findings r\<rparr>)
               (filter (\<lambda>r. r_error r = None \<and> length (r_findings r) > 0)
                  (map (\<lambda>f. worker_onMessage builtin env f (taskOptions D)) files)))"
proof (induction files)
  case Nil
  then show ?case by simp
next
  case (Cons f files)
  obtain fs where fs: "analyzeContent (worker_analyzer builtin) env f (taskOptions D) = Returns fs"
    using analyzeContent_returns by blast
  show ?case using Cons fs assms by (simp add: worker_onMessage_def)
qed

lemma scans_agree_without_custom_file:
  assumes "d_analyzer D = worker_analyzer builtin"
    and "0 < (case d_workerCount D of None \<Rightarrow> cpus | Some n \<Rightarrow> n)"
  shows "scanParallel C builtin cpus D env stored files = scanSingleThreaded C D env stored files"
  using assms(2)
  by (simp add: scanParallel_def scanSingleThreaded_def Let_def
      sequentialLoop_as_messages [OF assms(1)])

lemma default_detector_analyzer:
  "u_customPatterns opts = NoCustomFile \<Longrightarrow>
   d_analyzer (new_HardcodedApiDetector builtin opts) = worker_analyzer builtin"
  by (simp add: new_HardcodedApiDetector_def worker_analyzer_def)

lemma parallel_scan_without_workers:
  "d_workerCount D = Some 0 \<Longrightarrow> files \<noteq> [] \<Longrightarrow>
   scanParallel C builtin cpus D env stored files = NeverReturns"
  by (simp add: scanParallel_def)

section \<open>Generated baselines\<close>

text \<open>
  Every entry of a generated baseline stores the hash of a finding of the scan it was
  generated from, under the key of that finding's file and line.
\<close>

lemma generateBaseline_entries:
  "\<exists>files. b_files (generateBaseline C results reason) = Some files \<and>
     (\<forall>k e. map_of files k = Some e \<longrightarrow>
        (\<exists>fr \<in> set results. \<exists>f0 \<in> set (fr_findings fr).
           k = baselineKey (fr_file fr) (f_line f0) \<and>
           b_hash e = Some (generateFindingHash C f0 (fr_file fr))))"
proof -
  define pairs where
    "pairs = concat (map (\<lambda>fileResult. map (\<lambda>finding. (fr_file fileResult, finding))
                            (fr_findings fileResult)) results)"
  define step where
    "step = (\<lambda>(bl :: baseline) (filePath, finding).
              (let hash = generateFindingHash C finding filePath;
                   key = baselineKey filePath (f_line finding);
                   entry = \<lparr>b_type = f_id finding, b_name = f_name finding,
                            b_severity = f_severity finding, b_hash = Some hash,
                            b_reviewed = False, b_reviewedBy = None, b_reviewDate = None,
                            b_reason = or_default reason (lit ''Baselined during initial scan''),
                            b_line = f_line finding, b_match = take 50 (f_match finding)\<rparr>
               in bl\<lparr>b_files := Some (assign1 (case b_files bl of Some fs \<Rightarrow> fs | None \<Rightarrow> []) key entry),
                     b_totalFindings := b_totalFindings bl + 1\<rparr>))"
  define init where
    "init = \<lparr>b_version = lit ''1.0.0'', b_totalFindings = 0, b_files = Some []\<rparr>"
  have gen: "generateBaseline C results reason = foldl step init pairs"
    by (simp add: generateBaseline_def step_def init_def pairs_def)
  have inv: "\<exists>files. b_files (foldl step init xs) = Some files \<and>
     (\<forall>k e. map_of files k = Some e \<longrightarrow>
        (\<exists>(p, f0) \<in> set xs. k = baselineKey p (f_line f0) \<and>
           b_hash e = Some (generateFindingHash C f0 p)))" for xs
  proof (induction xs rule: rev_induct)
    case Nil
    then show ?case by (simp add: init_def)
  next
    case (snoc x xs)
    obtain p f0 where x: "x = (p, f0)" by (cases x)
    from snoc obtain files where
      fs: "b_files (foldl step init xs) = Some files"
      and old: "\<And>k e. map_of files k = Some e \<Longrightarrow>
        \<exists>(p, f0) \<in> set xs. k = baselineKey p (f_line f0) \<and>
           b_hash e = Some (generateFindingHash C f0 p)"
      by blast
    show ?case
      using fs old
      by (fastforce simp: x step_def Let_def map_of_assign1 split: if_splits)
  qed
  from inv [of pairs] obtain files where
    fs: "b_files (foldl step init pairs) = Some files"
    and ent: "\<And>k e. map_of files k = Some e \<Longrightarrow>
        \<exists>(p, f0) \<in> set pairs. k = baselineKey p (f_line f0) \<and>
           b_hash e = Some (generateFindingHash C f0 p)"
    by blast
  have "\<exists>fr \<in> set results. \<exists>f0 \<in> set (fr_findings fr).
           k = baselineKey (fr_file fr) (f_line f0) \<and>
           b_hash e = Some (generateFindingHash C f0 (fr_file fr))"
    if "map_of files k = Some e" for k e
    using ent [OF that] by (fastforce simp: pairs_def)
  then show ?thesis using fs gen by auto
qed

section \<open>The static validator\<close>


inductive_simps matches_Zero: "matches_rx Zero w"
inductive_simps matches_Eps: "matches_rx Eps w"
inductive_simps matches_Atom: "matches_rx (Atom a) w"
inductive_simps matches_Seq: "matches_rx (Seq r s) w"
inductive_simps matches_Alt: "matches_rx (Alt r s) w"

lemma nullable_iff: "nullable r \<longleftrightarrow> matches_rx r []"
  by (induction r) (auto simp: matches_Zero matches_Eps matches_Atom matches_Seq matches_Alt
      intro: m_StarNil)

lemma star_cons:
  "matches_rx q x \<Longrightarrow> q = Star r \<Longrightarrow> x = c # w \<Longrightarrow>
   \<exists>u v. w = u @ v \<and> matches_rx r (c # u) \<and> matches_rx (Star r) v"
proof (induction q x arbitrary: w rule: matches_rx.induct)
  case (m_StarStep r' u v)
  show ?case
  proof (cases u)
    case Nil
    with m_StarStep show ?thesis by simp
  next
    case (Cons d u')
    with m_StarStep.prems m_StarStep.hyps have "w = u' @ v" "matches_rx r (c # u')"
      "matches_rx (Star r) v" by auto
    then show ?thesis by blast
  qed
qed simp_all

lemma deriv_iff: "matches_rx (deriv c r) w \<longleftrightarrow> matches_rx r (c # w)"
proof (induction r arbitrary: w)
  case Zero
  then show ?case by (simp add: matches_Zero)
next
  case Eps
  then show ?case by (simp add: matches_Zero matches_Eps)
next
  case (Atom a)
  then show ?case by (auto simp: matches_Zero matches_Eps matches_Atom)
next
  case (Seq r s)
  show ?case
  proof
    assume "matches_rx (deriv c (Seq r s)) w"
    then consider u v where "w = u @ v" "matches_rx (deriv c r) u" "matches_rx s v"
      | "nullable r" "matches_rx (deriv c s) w"
      by (auto simp: matches_Seq matches_Alt split: if_splits)
    then show "matches_rx (Seq r s) (c # w)"
    proof cases
      case 1
      then have "matches_rx r (c # u)" using Seq.IH(1) by simp
      then have "matches_rx (Seq r s) ((c # u) @ v)" using 1 by (intro m_Seq)
      then show ?thesis using 1 by simp
    next
      case 2
      then have "matches_rx r []" "matches_rx s (c # w)"
        using Seq.IH(2) by (simp_all add: nullable_iff)
      then have "matches_rx (Seq r s) ([] @ c # w)" by (intro m_Seq)
      then show ?thesis by simp
    qed
  next
    assume "matches_rx (Seq r s) (c # w)"
    then obtain u v where uv: "c # w = u @ v" "matches_rx r u" "matches_rx s v"
      by (auto simp: matches_Seq)
    show "matches_rx (deriv c (Seq r s)) w"
    proof (cases u)
      case Nil
      with uv have "nullable r" "matches_rx (deriv c s) w"
        using Seq.IH(2) by (simp_all add: nullable_iff)
      then show ?thesis by (simp add: matches_Alt)
    next
      case (Cons d u')
      with uv have "matches_rx (deriv c r) u'" "w = u' @ v"
        using Seq.IH(1) by simp_all
      then have "matches_rx (Seq (deriv c r) s) w" using uv by (auto intro: m_Seq)
      then show ?thesis by (simp add: matches_Alt)
    qed
  qed
next
  case (Alt r s)
  then show ?case by (simp add: matches_Alt)
next
  case (Star r)
  show ?case
  proof
    assume "matches_rx (deriv c (Star r)) w"
    then obtain u v where "w = u @ v" "matches_rx (deriv c r) u" "matches_rx (Star r) v"
      by (auto simp: matches_Seq)
    then have "matches_rx (Star r) ((c # u) @ v)" using Star.IH by (intro m_StarStep) simp
    then show "matches_rx (Star r) (c # w)" using \<open>w = u @ v\<close> by simp
  next
    assume "matches_rx (Star r) (c # w)"
    then obtain u v where "w = u @ v" "matches_rx r (c # u)" "matches_rx (Star r) v"
      using star_cons by blast
    then show "matches_rx (deriv c (Star r)) w"
      using Star.IH by (auto simp: matches_Seq)
  qed
qed

lemma matchPrefix_iff: "matchPrefix r s \<longleftrightarrow> (\<exists>u v. s = u @ v \<and> matches_rx r u)"
proof (induction s arbitrary: r)
  case Nil
  then show ?case by (simp add: nullable_iff)
next
  case (Cons c s)
  show ?case
  proof
    assume "matchPrefix r (c # s)"
    then consider "matches_rx r []" | u v where "s = u @ v" "matches_rx r (c # u)"
      using Cons.IH by (auto simp: nullable_iff deriv_iff)
    then show "\<exists>u v. c # s = u @ v \<and> matches_rx r u"
    proof cases
      case 1
      then have "c # s = [] @ (c # s) \<and> matches_rx r []" by simp
      then show ?thesis by blast
    next
      case 2
      then have "c # s = (c # u) @ v \<and> matches_rx r (c # u)" by simp
      then show ?thesis by blast
    qed
  next
    assume "\<exists>u v. c # s = u @ v \<and> matches_rx r u"
    then obtain u v where uv: "c # s = u @ v" "matches_rx r u" by blast
    show "matchPrefix r (c # s)"
    proof (cases u)
      case Nil
      with uv have "nullable r" by (simp add: nullable_iff)
      then show ?thesis by simp
    next
      case (Cons d u')
      with uv have "s = u' @ v" "matches_rx (deriv c r) u'" by (simp_all add: deriv_iff)
      then have "matchPrefix (deriv c r) s" using Cons.IH by blast
      then show ?thesis by simp
    qed
  qed
qed

lemma test_rx_iff: "test_rx r s \<longleftrightarrow> (\<exists>p u v. s = p @ u @ v \<and> matches_rx r u)"
proof (induction s)
  case Nil
  then show ?case by (simp add: nullable_iff)
next
  case (Cons c s)
  show ?case
  proof
    assume "test_rx r (c # s)"
    then consider "matchPrefix r (c # s)" | "test_rx r s" by auto
    then show "\<exists>p u v. c # s = p @ u @ v \<and> matches_rx r u"
    proof cases
      case 1
      then obtain u v where "c # s = [] @ u @ v \<and> matches_rx r u"
        by (auto simp: matchPrefix_iff)
      then show ?thesis by blast
    next
      case 2
      then obtain p u v where "s = p @ u @ v" "matches_rx r u" using Cons.IH by blast
      then have "c # s = (c # p) @ u @ v \<and> matches_rx r u" by simp
      then show ?thesis by blast
    qed
  next
    assume "\<exists>p u v. c # s = p @ u @ v \<and> matches_rx r u"
    then obtain p u v where puv: "c # s = p @ u @ v" "matches_rx r u" by blast
    show "test_rx r (c # s)"
    proof (cases p)
      case Nil
      with puv have "matchPrefix r (c # s)" by (auto simp: matchPrefix_iff)
      then show ?thesis by simp
    next
      case (Cons d p')
      with puv have "s = p' @ u @ v" by simp
      then have "test_rx r s" using Cons.IH puv(2) by blast
      then show ?thesis by simp
    qed
  qed
qed


lemma star_atoms:
  "matches_rx (Star (Atom a)) w \<longleftrightarrow> (\<forall>c \<in> set w. cls_ok a c)"
proof
  assume "matches_rx (Star (Atom a)) w"
  then show "\<forall>c \<in> set w. cls_ok a c"
  proof (induction "Star (Atom a)" w rule: matches_rx.induct)
    case m_StarNil
    then show ?case by simp
  next
    case (m_StarStep u v)
    then show ?case by (auto simp: matches_Atom)
  qed
next
  show "\<forall>c \<in> set w. cls_ok a c \<Longrightarrow> matches_rx (Star (Atom a)) w"
  proof (induction w)
    case Nil
    then show ?case by (simp add: m_StarNil)
  next
    case (Cons c w)
    then have "matches_rx (Atom a) [c]" "matches_rx (Star (Atom a)) w"
      by (simp_all add: m_Atom)
    then have "matches_rx (Star (Atom a)) ([c] @ w)" by (rule m_StarStep)
    then show ?case by simp
  qed
qed

lemma matches_NESTED:
  "matches_rx NESTED_QUANTIFIERS w \<longleftrightarrow>
     (\<exists>body a b. w = [chr CHR ''(''] @ body @ [a, chr CHR '')'', b] \<and>
        chr CHR '')'' \<notin> set body \<and> quantifier a \<and> quantifier b)"
proof
  assume "matches_rx NESTED_QUANTIFIERS w"
  then show "\<exists>body a b. w = [chr CHR ''(''] @ body @ [a, chr CHR '')'', b] \<and>
        chr CHR '')'' \<notin> set body \<and> quantifier a \<and> quantifier b"
    unfolding NESTED_QUANTIFIERS_def
    by (auto simp: matches_Seq matches_Atom star_atoms quantifier_def)
next
  assume "\<exists>body a b. w = [chr CHR ''(''] @ body @ [a, chr CHR '')'', b] \<and>
        chr CHR '')'' \<notin> set body \<and> quantifier a \<and> quantifier b"
  then obtain body a b where w: "w = [chr CHR ''(''] @ body @ [a] @ [chr CHR '')''] @ [b]"
    and q: "chr CHR '')'' \<notin> set body" "quantifier a" "quantifier b" by auto
  have 1: "matches_rx (Atom (Ch (chr CHR ''(''))) [chr CHR ''('']"
    by (simp add: matches_Atom)
  have 2: "matches_rx (Star (Atom (NoneOf [chr CHR '')'']))) body"
    using q(1) by (auto simp: star_atoms)
  have 3: "matches_rx (Atom (OneOf [chr CHR ''+'', chr CHR ''*''])) [a]"
    using q(2) by (auto simp: matches_Atom quantifier_def)
  have 4: "matches_rx (Atom (Ch (chr CHR '')''))) [chr CHR '')'']"
    by (simp add: matches_Atom)
  have 5: "matches_rx (Atom (OneOf [chr CHR ''+'', chr CHR ''*''])) [b]"
    using q(3) by (auto simp: matches_Atom quantifier_def)
  show "matches_rx NESTED_QUANTIFIERS w"
    unfolding NESTED_QUANTIFIERS_def w
    by (intro m_Seq 1 2 3 4 5)
qed

lemma test_NESTED:
  "test_rx NESTED_QUANTIFIERS p \<longleftrightarrow>
     (\<exists>u body a b v. p = u @ [chr CHR ''(''] @ body @ [a, chr CHR '')'', b] @ v \<and>
        chr CHR '')'' \<notin> set body \<and> quantifier a \<and> quantifier b)"
proof
  assume "test_rx NESTED_QUANTIFIERS p"
  then obtain u w v where "p = u @ w @ v" "matches_rx NESTED_QUANTIFIERS w"
    by (auto simp: test_rx_iff)
  then obtain body a b where "p = u @ ([chr CHR ''(''] @ body @ [a, chr CHR '')'', b]) @ v"
      "chr CHR '')'' \<notin> set body" "quantifier a" "quantifier b"
    by (auto simp: matches_NESTED)
  then have "p = u @ [chr CHR ''(''] @ body @ [a, chr CHR '')'', b] @ v \<and>
        chr CHR '')'' \<notin> set body \<and> quantifier a \<and> quantifier b" by simp
  then show "\<exists>u body a b v. p = u @ [chr CHR ''(''] @ body @ [a, chr CHR '')'', b] @ v \<and>
        chr CHR '')'' \<notin> set body \<and> quantifier a \<and> quantifier b" by blast
next
  assume "\<exists>u body a b v. p = u @ [chr CHR ''(''] @ body @ [a, chr CHR '')'', b] @ v \<and>
        chr CHR '')'' \<notin> set body \<and> quantifier a \<and> quantifier b"
  then obtain u body a b v where p: "p = u @ [chr CHR ''(''] @ body @ [a, chr CHR '')'', b] @ v"
      and q: "chr CHR '')'' \<notin> set body" "quantifier a" "quantifier b" by blast
  have "matches_rx NESTED_QUANTIFIERS ([chr CHR ''(''] @ body @ [a, chr CHR '')'', b])"
    using q matches_NESTED by blast
  moreover have "p = u @ ([chr CHR ''(''] @ body @ [a, chr CHR '')'', b]) @ v"
    using p by simp
  ultimately show "test_rx NESTED_QUANTIFIERS p"
    unfolding test_rx_iff by blast
qed

lemma matches_two_or_more:
  "matches_rx (atLeast_rx 2 (Seq (Atom (Ch x)) (Atom (Ch y)))) w \<Longrightarrow> \<exists>v. w = [x, y, x, y] @ v"
  by (auto simp: numeral_2_eq_2 matches_Seq matches_Atom)

lemma matches_exactly_two:
  "matches_rx (atLeast_rx 2 (Seq (Atom (Ch x)) (Atom (Ch y)))) [x, y, x, y]"
proof -
  have xy: "matches_rx (Seq (Atom (Ch x)) (Atom (Ch y))) ([x] @ [y])"
    by (intro m_Seq m_Atom) simp_all
  have "matches_rx (Seq (Seq (Atom (Ch x)) (Atom (Ch y)))
          (Seq (Seq (Atom (Ch x)) (Atom (Ch y))) (Star (Seq (Atom (Ch x)) (Atom (Ch y))))))
        (([x] @ [y]) @ ([x] @ [y]) @ [])"
    by (intro m_Seq xy m_StarNil)
  then show ?thesis by (simp add: numeral_2_eq_2)
qed

lemma test_MULTIPLE_WILDCARDS:
  "test_rx MULTIPLE_WILDCARDS p \<longleftrightarrow>
     includes_js p (lit ''.*.*'') \<or> includes_js p (lit ''.+.+'')"
proof
  assume "test_rx MULTIPLE_WILDCARDS p"
  then obtain u w v where p: "p = u @ w @ v" and "matches_rx MULTIPLE_WILDCARDS w"
    by (auto simp: test_rx_iff)
  then consider v' where "w = lit ''.*.*'' @ v'" | v' where "w = lit ''.+.+'' @ v'"
    unfolding MULTIPLE_WILDCARDS_def
    by (auto simp: matches_Alt lit_def dest!: matches_two_or_more)
  then show "includes_js p (lit ''.*.*'') \<or> includes_js p (lit ''.+.+'')"
  proof cases
    case 1
    then have "p = u @ lit ''.*.*'' @ (v' @ v)" using p by simp
    then show ?thesis unfolding includes_js_iff by blast
  next
    case 2
    then have "p = u @ lit ''.+.+'' @ (v' @ v)" using p by simp
    then show ?thesis unfolding includes_js_iff by blast
  qed
next
  assume "includes_js p (lit ''.*.*'') \<or> includes_js p (lit ''.+.+'')"
  then consider u v where "p = u @ lit ''.*.*'' @ v" | u v where "p = u @ lit ''.+.+'' @ v"
    by (auto simp: includes_js_iff)
  then show "test_rx MULTIPLE_WILDCARDS p"
  proof cases
    case 1
    have "matches_rx MULTIPLE_WILDCARDS (lit ''.*.*'')"
      unfolding MULTIPLE_WILDCARDS_def using matches_exactly_two
      by (auto simp: lit_def intro: m_AltL)
    with 1 show ?thesis unfolding test_rx_iff by blast
  next
    case 2
    have "matches_rx MULTIPLE_WILDCARDS (lit ''.+.+'')"
      unfolding MULTIPLE_WILDCARDS_def using matches_exactly_two
      by (auto simp: lit_def intro: m_AltR)
    with 2 show ?thesis unfolding test_rx_iff by blast
  qed
qed

text \<open>
  C7, as stated, fails. The claim puts \<open>safe = false\<close> exactly where the source shows
  nested quantifiers or a sequence of two or more greedy wildcard groups. The source
  \<open>.*.+\<close> is a sequence of two greedy wildcard groups, and the validator returns
  \<open>safe = true\<close> for it with no warning: its test asks for the same group twice. The
  validator is a textual heuristic in the other shape as well: it passes \<open>((a+))+\<close>
  and flags the character class \<open>[(+)*]\<close>.
\<close>

theorem validator_misses_mixed_wildcards:
  "spec_wildcard_sequence (lit ''.*.+'') \<and>
   validatePattern (lit ''.*.+'') = \<lparr>safe = True, warnings = []\<rparr> \<and>
   validatePattern (lit ''((a+))+'') = \<lparr>safe = True, warnings = []\<rparr> \<and>
   validatePattern (lit ''[(+)*]'') =
     \<lparr>safe = False, warnings = [lit ''Nested quantifiers detected - may cause ReDoS'']\<rparr>"
  by code_simp

text \<open>
  C7, amended. \<open>validatePattern\<close> sets \<open>safe\<close> to false exactly when one of its two
  textual tests fires: the source contains an opening parenthesis, any text without a
  closing parenthesis, a quantifier \<open>+\<close> or \<open>*\<close>, a closing parenthesis and another
  quantifier; or it contains \<open>.*.*\<close> or \<open>.+.+\<close>. The warnings are, in this order,
  one message for each test that fires: the two unsafe tests, and the four tests that
  only warn (alternations with a quantifier, the group at the end, a backreference, a
  large character class). The validator reads the source text only: the pattern is never
  compiled or run (no engine is among its arguments).
\<close>

theorem validatePattern_safe_flag:
  "(safe (validatePattern p) \<longleftrightarrow>
      \<not> test_rx NESTED_QUANTIFIERS p \<and> \<not> test_rx MULTIPLE_WILDCARDS p) \<and>
   (test_rx NESTED_QUANTIFIERS p \<longleftrightarrow>
      (\<exists>u body a b v. p = u @ [chr CHR ''(''] @ body @ [a, chr CHR '')'', b] @ v \<and>
         chr CHR '')'' \<notin> set body \<and> quantifier a \<and> quantifier b)) \<and>
   (test_rx MULTIPLE_WILDCARDS p \<longleftrightarrow>
      includes_js p (lit ''.*.*'') \<or> includes_js p (lit ''.+.+'')) \<and>
   warnings (validatePattern p) =
     (if test_rx NESTED_QUANTIFIERS p
      then [lit ''Nested quantifiers detected - may cause ReDoS''] else []) @
     (if test_rx ALTERNATIONS p \<and> test_rx QUANTIFIER p
      then [lit ''Multiple alternations with quantifiers - may cause ReDoS''] else []) @
     (if test_rx MULTIPLE_WILDCARDS p
      then [lit ''Multiple .* or .+ in sequence - may cause ReDoS''] else []) @
     (if test_rx GROUP_AT_END p
      then [lit ''Repeated word boundaries at end - may cause ReDoS''] else []) @
     (if test_rx BACKREFERENCE p
      then [lit ''Backreferences detected - may impact performance''] else []) @
     (if test_rx LARGE_CLASS p
      then [lit ''Very large character class - may impact performance''] else [])"
proof (intro conjI)
  show "safe (validatePattern p) \<longleftrightarrow>
      \<not> test_rx NESTED_QUANTIFIERS p \<and> \<not> test_rx MULTIPLE_WILDCARDS p"
    by (simp add: validatePattern_def Let_def)
  show "test_rx NESTED_QUANTIFIERS p \<longleftrightarrow>
      (\<exists>u body a b v. p = u @ [chr CHR ''(''] @ body @ [a, chr CHR '')'', b] @ v \<and>
         chr CHR '')'' \<notin> set body \<and> quantifier a \<and> quantifier b)"
    by (rule test_NESTED)
  show "test_rx MULTIPLE_WILDCARDS p \<longleftrightarrow>
      includes_js p (lit ''.*.*'') \<or> includes_js p (lit ''.+.+'')"
    by (rule test_MULTIPLE_WILDCARDS)
  show "warnings (validatePattern p) =
     (if test_rx NESTED_QUANTIFIERS p
      then [lit ''Nested quantifiers detected - may cause ReDoS''] else []) @
     (if test_rx ALTERNATIONS p \<and> test_rx QUANTIFIER p
      then [lit ''Multiple alternations with quantifiers - may cause ReDoS''] else []) @
     (if test_rx MULTIPLE_WILDCARDS p
      then [lit ''Multiple .* or .+ in sequence - may cause ReDoS''] else []) @
     (if test_rx GROUP_AT_END p
      then [lit ''Repeated word boundaries at end - may cause ReDoS''] else []) @
     (if test_rx BACKREFERENCE p
      then [lit ''Backreferences detected - may impact performance''] else []) @
     (if test_rx LARGE_CLASS p
      then [lit ''Very large character class - may impact performance''] else [])"
    by (simp add: validatePattern_def Let_def)
qed


lemma validator_examples:
  "safe (validatePattern (lit ''(a+)+b'')) = False"
  "safe (validatePattern (lit ''key.*.*end'')) = False"
  "validatePattern (lit ''a|b|c|d+'') =
     \<lparr>safe = True, warnings = [lit ''Multiple alternations with quantifiers - may cause ReDoS'']\<rparr>"
  "validatePattern (lit ''(a)x'' @ [0x5C] @ lit ''1'') =
     \<lparr>safe = True, warnings = [lit ''Backreferences detected - may impact performance'']\<rparr>"
  "validatePattern (lit ''AKIA[0-9A-Z]{16}'') = \<lparr>safe = True, warnings = []\<rparr>"
  by code_simp+


end
